theory Spec2Isabelle
  imports Complex_Main "HOL-Library.Log_Nat"
begin

section \<open>The event system (src/src/event-system.ts)\<close>

text \<open>
  \<^verbatim>\<open>AppState\<close>, \<^verbatim>\<open>AppEvent\<close> and \<^verbatim>\<open>AppEffect\<close> are the three exported types of
  the file. The numeric fields are scene counts and scene positions; they are modelled
  as \<open>int\<close> (the range in which the arithmetic of a JavaScript number is exact).
\<close>

record AppState =
  currentSceneIndex :: int
  isAutoMode :: bool
  isPlaying :: bool
  totalScenes :: int
  projectLoaded :: bool

datatype AppEvent =
    PROJECT_LOADED int
  | SCENE_NAVIGATE int
  | SCENE_SET int
  | MODE_TOGGLE
  | PLAY_PAUSE
  | AUDIO_STARTED
  | AUDIO_STOPPED
  | AUTO_ADVANCE

datatype AppEffect =
    LOAD_SCENE_AUDIO int
  | UPDATE_UI
  | STOP_AUDIO
  | ADVANCE_SCENE

text \<open>
  \<^verbatim>\<open>reduce\<close> either hands back the very object it was given (\<^verbatim>\<open>return state\<close>) or
  allocates a new one (\<^verbatim>\<open>return { ...state, f: v }\<close>). \<^verbatim>\<open>getEffects\<close> compares the two
  by reference (\<^verbatim>\<open>oldState !== newState\<close>), so the model keeps which of the two
  happened: \<open>SameObject\<close> is the input object itself, \<open>NewObject s\<close> a fresh object
  with contents \<open>s\<close>, which is never reference-equal to the input even when all fields
  agree.
\<close>

datatype reduced = SameObject | NewObject AppState

fun reduce :: "AppState \<Rightarrow> AppEvent \<Rightarrow> reduced" where
  "reduce state (PROJECT_LOADED n) =
     NewObject (state\<lparr>projectLoaded := True, totalScenes := n, currentSceneIndex := 1\<rparr>)"
| "reduce state (SCENE_NAVIGATE direction) =
     (let newIndex = currentSceneIndex state + direction in
      if newIndex \<ge> 1 \<and> newIndex \<le> totalScenes state
      then NewObject (state\<lparr>currentSceneIndex := newIndex\<rparr>)
      else SameObject)"
| "reduce state (SCENE_SET index) =
     (if index \<ge> 1 \<and> index \<le> totalScenes state
      then NewObject (state\<lparr>currentSceneIndex := index\<rparr>)
      else SameObject)"
| "reduce state MODE_TOGGLE = NewObject (state\<lparr>isAutoMode := \<not> isAutoMode state\<rparr>)"
| "reduce state PLAY_PAUSE = NewObject (state\<lparr>isPlaying := \<not> isPlaying state\<rparr>)"
| "reduce state AUDIO_STARTED = NewObject (state\<lparr>isPlaying := True\<rparr>)"
| "reduce state AUDIO_STOPPED = NewObject (state\<lparr>isPlaying := False\<rparr>)"
| "reduce state AUTO_ADVANCE =
     (if \<not> isAutoMode state then SameObject
      else let nextIndex = currentSceneIndex state + 1;
               newIndex = (if nextIndex \<le> totalScenes state then nextIndex else 1)
           in NewObject (state\<lparr>currentSceneIndex := newIndex\<rparr>))"

text \<open>The contents of the object \<^verbatim>\<open>reduce\<close> returned, whichever object it is.\<close>

fun contents :: "AppState \<Rightarrow> reduced \<Rightarrow> AppState" where
  "contents oldState SameObject = oldState"
| "contents oldState (NewObject s) = s"

text \<open>
  \<^verbatim>\<open>getEffects(oldState, newState, event)\<close>: six independent tests, each pushing onto
  the end of the array, in the order of the source.
\<close>

definition getEffects :: "AppState \<Rightarrow> reduced \<Rightarrow> AppEvent \<Rightarrow> AppEffect list" where
  "getEffects oldState r event =
     (let newState = contents oldState r in
        (if r \<noteq> SameObject then [UPDATE_UI] else [])
      @ (case event of PROJECT_LOADED n \<Rightarrow> [LOAD_SCENE_AUDIO (currentSceneIndex newState)]
                     | _ \<Rightarrow> [])
      @ (if currentSceneIndex oldState \<noteq> currentSceneIndex newState
         then [STOP_AUDIO, LOAD_SCENE_AUDIO (currentSceneIndex newState)] else [])
      @ (if isAutoMode oldState \<noteq> isAutoMode newState
         then STOP_AUDIO #
              (if isPlaying newState \<or> isAutoMode newState
               then [LOAD_SCENE_AUDIO (currentSceneIndex newState)] else [])
         else [])
      @ (if event = PLAY_PAUSE
         then (if isPlaying oldState then [STOP_AUDIO]
               else [LOAD_SCENE_AUDIO (currentSceneIndex newState)])
         else [])
      @ (if event = AUTO_ADVANCE then [ADVANCE_SCENE] else []))"

text \<open>
  \<^verbatim>\<open>dispatch(event)\<close>: reduce, derive the effects from the old and the new object,
  store the new state. The model returns the stored state and the effect list that is
  then handed, in order, to the registered handlers.
\<close>

definition dispatch :: "AppState \<Rightarrow> AppEvent \<Rightarrow> AppState \<times> AppEffect list" where
  "dispatch state event =
     (let r = reduce state event;
          effects = getEffects state r event
      in (contents state r, effects))"

text \<open>The singleton's initial state, and the state after a sequence of dispatches.\<close>

definition initialState :: AppState where
  "initialState = \<lparr>currentSceneIndex = 1, isAutoMode = False, isPlaying = False,
                    totalScenes = 0, projectLoaded = False\<rparr>"

fun dispatch_all :: "AppState \<Rightarrow> AppEvent list \<Rightarrow> AppState" where
  "dispatch_all state [] = state"
| "dispatch_all state (e # es) = dispatch_all (fst (dispatch state e)) es"

section \<open>The audio player (class AudioPlayer)\<close>

subsection \<open>JavaScript numbers\<close>

text \<open>
  Times and sample rates are JavaScript numbers: IEEE 754 doubles. A double is modelled
  by the real number it stands for, and every arithmetic operation of the code by the
  exact operation followed by \<open>double\<close>, the rounding to the nearest double (to the
  even significand at a tie): \<^verbatim>\<open>a * b\<close> is \<open>double (a * b)\<close>. Comparisons,
  \<^verbatim>\<open>Math.floor\<close> and \<^verbatim>\<open>Math.min\<close> are exact. A double has a significand of 53 bits
  and the spacing \<open>2 ^ (e - 52)\<close> between \<open>2 ^ e\<close> and \<open>2 ^ (e + 1)\<close>, never less
  than \<open>2 ^ (- 1074)\<close>; magnitudes of \<open>2 ^ 1024\<close> and more (\<^verbatim>\<open>Infinity\<close>) and \<^verbatim>\<open>NaN\<close>
  are not modelled. An optional parameter (\<^verbatim>\<open>startTime?: number\<close>) is an \<open>option\<close>,
  \<open>None\<close> being \<^verbatim>\<open>undefined\<close>.
\<close>

definition pow2 :: "int \<Rightarrow> real" where
  "pow2 k = (if 0 \<le> k then 2 ^ nat k else 1 / 2 ^ nat (- k))"

text \<open>For \<open>x > 0\<close>, the \<open>e\<close> with \<open>2 ^ e \<le> x < 2 ^ (e + 1)\<close> (lemma \<open>exponent_bounds\<close>).\<close>

definition exponent :: "real \<Rightarrow> int" where
  "exponent x = (if 1 \<le> x then bitlen \<lfloor>x\<rfloor> - 1 else - bitlen (\<lceil>1 / x\<rceil> - 1))"

definition roundHalfEven :: "real \<Rightarrow> int" where
  "roundHalfEven x =
     (let f = \<lfloor>x\<rfloor>; r = x - of_int f
      in if r < 1 / 2 then f else if 1 / 2 < r then f + 1 else if even f then f else f + 1)"

definition double :: "real \<Rightarrow> real" where
  "double x =
     (if x = 0 then 0
      else let k = max (exponent \<bar>x\<bar> - 52) (- 1074)
           in sgn x * of_int (roundHalfEven (\<bar>x\<bar> / pow2 k)) * pow2 k)"

text \<open>The literal \<^verbatim>\<open>0.1\<close> of \<^verbatim>\<open>const tolerance = 0.1\<close> is the double nearest to 1/10.\<close>

definition tolerance :: real where
  "tolerance = double (1 / 10)"

subsection \<open>Audio buffers\<close>

text \<open>
  A cell of a \<^verbatim>\<open>Float32Array\<close> holds a number or \<^verbatim>\<open>NaN\<close>; \<^verbatim>\<open>NaN\<close> is what a store of
  \<^verbatim>\<open>undefined\<close> (a read outside the array) leaves in the cell.
\<close>

datatype sample = Sample real | NaN

record AudioBuffer =
  sampleRate :: real
  duration :: real
  channelData :: "sample list list"

definition numberOfChannels :: "AudioBuffer \<Rightarrow> nat" where
  "numberOfChannels b = length (channelData b)"

text \<open>
  \<^verbatim>\<open>audioContext.createBuffer(numberOfChannels, length, sampleRate)\<close>: a buffer of
  \<open>length\<close> zero samples per channel, of duration \<^verbatim>\<open>length / sampleRate\<close>. The platform
  throws \<^verbatim>\<open>NotSupportedError\<close> when the number of channels or the length is not
  positive, or the sample rate is outside the range \<open>[lo, hi]\<close> it supports. That range
  is the platform's: the Web Audio specification requires it to contain 8000 to 96000.
\<close>

datatype error = NotSupportedError

definition createBuffer :: "real \<Rightarrow> real \<Rightarrow> nat \<Rightarrow> int \<Rightarrow> real \<Rightarrow> error + AudioBuffer" where
  "createBuffer lo hi n len rate =
     (if n = 0 \<or> len \<le> 0 \<or> rate < lo \<or> hi < rate then Inl NotSupportedError
      else Inr \<lparr>sampleRate = rate, duration = double (real_of_int len / rate),
                channelData = replicate n (replicate (nat len) (Sample 0))\<rparr>)"

text \<open>\<^verbatim>\<open>a || b\<close> on an optional number: \<^verbatim>\<open>undefined\<close> and \<^verbatim>\<open>0\<close> are both falsy.\<close>

fun js_or :: "real option \<Rightarrow> real \<Rightarrow> real" where
  "js_or None d = d"
| "js_or (Some x) d = (if x = 0 then d else x)"

text \<open>\<^verbatim>\<open>originalData[sourceIndex]\<close>: a read outside the array yields \<^verbatim>\<open>undefined\<close>.\<close>

definition read_sample :: "sample list \<Rightarrow> int \<Rightarrow> sample" where
  "read_sample xs k = (if 0 \<le> k \<and> k < int (length xs) then xs ! nat k else NaN)"

text \<open>
  The inner loop of \<^verbatim>\<open>playSegmentWithMode\<close>:
  \<^verbatim>\<open>for (let i = 0; i < segmentLength; i++) {
     const sourceIndex = startSample + i;
     if (sourceIndex < originalData.length) segmentData[i] = originalData[sourceIndex]; }\<close>
  A store at an index outside \<open>segmentData\<close> is ignored by a typed array, as it is by
  a list update.
\<close>

function copy_samples :: "sample list \<Rightarrow> int \<Rightarrow> int \<Rightarrow> nat \<Rightarrow> sample list \<Rightarrow> sample list" where
  "copy_samples originalData startSample segmentLength i segmentData =
     (if int i < segmentLength
      then let sourceIndex = startSample + int i in
           copy_samples originalData startSample segmentLength (i + 1)
             (if sourceIndex < int (length originalData)
              then segmentData[i := read_sample originalData sourceIndex]
              else segmentData)
      else segmentData)"
  by pat_completeness auto
termination
  by (relation "measure (\<lambda>(originalData, startSample, segmentLength, i, segmentData).
                           nat (segmentLength - int i))") auto

text \<open>
  The outer loop:
  \<^verbatim>\<open>for (let channel = 0; channel < buffer.numberOfChannels; channel++)\<close>, which
  fills channel \<open>channel\<close> of the segment buffer from the same channel of the source.
\<close>

function copy_channels :: "AudioBuffer \<Rightarrow> int \<Rightarrow> int \<Rightarrow> nat \<Rightarrow> sample list list \<Rightarrow> sample list list" where
  "copy_channels buffer startSample segmentLength channel segmentChannels =
     (if channel < numberOfChannels buffer
      then copy_channels buffer startSample segmentLength (channel + 1)
             (segmentChannels[channel :=
                copy_samples (channelData buffer ! channel) startSample segmentLength 0
                  (segmentChannels ! channel)])
      else segmentChannels)"
  by pat_completeness auto
termination
  by (relation "measure (\<lambda>(buffer, startSample, segmentLength, channel, segmentChannels).
                           numberOfChannels buffer - channel)") auto

text \<open>
  The first half of \<^verbatim>\<open>playSegmentWithMode\<close>: the buffer holding just the segment.
  \<^verbatim>\<open>endTime - startTime\<close>, \<^verbatim>\<open>segmentDuration * sampleRate\<close> and
  \<^verbatim>\<open>startTime * sampleRate\<close> are each rounded to a double before \<^verbatim>\<open>Math.floor\<close>.
  The error of \<^verbatim>\<open>createBuffer\<close> is not caught.
\<close>

definition segmentBuffer :: "real \<Rightarrow> real \<Rightarrow> AudioBuffer \<Rightarrow> real \<Rightarrow> real \<Rightarrow> error + AudioBuffer" where
  "segmentBuffer lo hi buffer startTime endTime =
     (let segmentDuration = double (endTime - startTime);
          rate = sampleRate buffer;
          segmentLength = \<lfloor>double (segmentDuration * rate)\<rfloor>;
          startSample = \<lfloor>double (startTime * rate)\<rfloor>
      in case createBuffer lo hi (numberOfChannels buffer) segmentLength rate of
           Inl err \<Rightarrow> Inl err
         | Inr fresh \<Rightarrow>
             Inr (fresh\<lparr>channelData :=
                    copy_channels buffer startSample segmentLength 0 (channelData fresh)\<rparr>))"

subsection \<open>The player's fields and the audio graph\<close>

text \<open>
  The platform side of the player is the audio context: its state, the range of sample
  rates it supports and the nodes created in it. A source node is named by its position
  in \<open>sources\<close>, a gain node by its position in \<open>gains\<close>. A source sounds from \<^verbatim>\<open>start(0)\<close> until \<^verbatim>\<open>stop()\<close> is
  called on it or, when it does not loop, until its buffer has been played through.
\<close>

datatype loop_mode = Loop | Once

datatype context_state = Running | Suspended

record SourceNode =
  buffer :: AudioBuffer
  loop :: bool
  endedListener :: bool
  started :: bool
  stopped :: bool
  connected :: bool
  ended :: bool

text \<open>
  A completion callback (\<^verbatim>\<open>onSegmentEnd?: () => void\<close>) is named by a number. Each
  invocation is recorded in \<open>invocations\<close> with the source whose \<^verbatim>\<open>ended\<close> event ran the
  listener, and the values of \<^verbatim>\<open>isPlaying\<close> and \<^verbatim>\<open>stopRequested\<close> at the moment of the
  call. The player's own \<^verbatim>\<open>isPlaying\<close> is the field \<open>playing\<close> (the name
  \<open>isPlaying\<close> is the field of \<open>AppState\<close>).
\<close>

record invocation =
  callback :: nat
  ofSource :: nat
  playingAtCall :: bool
  stopRequestedAtCall :: bool

record AudioPlayer =
  contextState :: context_state
  minSampleRate :: real
  maxSampleRate :: real
  sources :: "SourceNode list"
  gains :: "bool list"
  currentSource :: "nat option"
  currentBuffer :: "AudioBuffer option"
  currentGain :: "nat option"
  playing :: bool
  stopRequested :: bool
  loopMode :: loop_mode
  onSegmentEnd :: "nat option"
  invocations :: "invocation list"

text \<open>
  A new player, with the context in the given state. Its context supports the sample
  rates from 3000 to 768000.
\<close>

definition newPlayer :: "context_state \<Rightarrow> AudioPlayer" where
  "newPlayer c = \<lparr>contextState = c, minSampleRate = 3000, maxSampleRate = 768000,
                   sources = [], gains = [], currentSource = None,
                   currentBuffer = None, currentGain = None, playing = False,
                   stopRequested = False, loopMode = Loop, onSegmentEnd = None,
                   invocations = []\<rparr>"

definition setLoopMode :: "loop_mode \<Rightarrow> nat option \<Rightarrow> AudioPlayer \<Rightarrow> AudioPlayer" where
  "setLoopMode mode cb p = p\<lparr>loopMode := mode, onSegmentEnd := cb\<rparr>"

text \<open>
  \<^verbatim>\<open>playSimpleLoop(buffer)\<close>: a looping source on the whole buffer, connected through
  a new gain node and started at once.
\<close>

definition playSimpleLoop :: "AudioBuffer \<Rightarrow> AudioPlayer \<Rightarrow> AudioPlayer" where
  "playSimpleLoop b p =
     p\<lparr>sources := sources p @
          [\<lparr>buffer = b, loop = True, endedListener = False, started = True,
            stopped = False, connected = True, ended = False\<rparr>],
       gains := gains p @ [True],
       currentSource := Some (length (sources p)),
       currentGain := Some (length (gains p)),
       currentBuffer := Some b,
       playing := True,
       stopRequested := False\<rparr>"

text \<open>
  \<^verbatim>\<open>playSegmentWithMode(buffer, startTime, endTime)\<close>: a source on the segment buffer,
  looping when the mode is \<^verbatim>\<open>'loop'\<close>; the \<^verbatim>\<open>ended\<close> listener is attached when the mode
  is \<^verbatim>\<open>'once'\<close> and a callback is registered. When \<^verbatim>\<open>createBuffer\<close> throws, no field
  of the player has been written yet.
\<close>

definition playSegmentWithMode :: "AudioBuffer \<Rightarrow> real \<Rightarrow> real \<Rightarrow> AudioPlayer \<Rightarrow> error + AudioPlayer" where
  "playSegmentWithMode b startTime endTime p =
     (case segmentBuffer (minSampleRate p) (maxSampleRate p) b startTime endTime of
        Inl err \<Rightarrow> Inl err
      | Inr seg \<Rightarrow>
          Inr (p\<lparr>sources := sources p @
                 [\<lparr>buffer = seg, loop = (loopMode p = Loop),
                   endedListener = (loopMode p = Once \<and> onSegmentEnd p \<noteq> None),
                   started = True, stopped = False, connected = True, ended = False\<rparr>],
               gains := gains p @ [True],
               currentSource := Some (length (sources p)),
               currentGain := Some (length (gains p)),
               currentBuffer := Some b,
               playing := True,
               stopRequested := False\<rparr>))"

text \<open>
  The last part of \<^verbatim>\<open>playSegment\<close>, from the resolution of the two defaults on: the
  window is validated, and the player falls back to \<^verbatim>\<open>playSimpleLoop\<close> when it is not
  valid. \<^verbatim>\<open>buffer.duration + tolerance\<close> is rounded to a double. The result is the
  error with which \<^verbatim>\<open>playSegment\<close> throws, or the player.
\<close>

definition playResolved :: "AudioBuffer \<Rightarrow> real option \<Rightarrow> real option \<Rightarrow> AudioPlayer \<Rightarrow> error + AudioPlayer" where
  "playResolved b startTime endTime p =
     (let actualStartTime = js_or startTime 0;
          actualEndTime = js_or endTime (duration b)
      in if actualStartTime \<ge> actualEndTime \<or>
            actualStartTime < 0 \<or>
            actualEndTime > double (duration b + tolerance) \<or>
            actualStartTime \<ge> duration b
         then Inr (playSimpleLoop b p)
         else let clampedEndTime = min actualEndTime (duration b)
              in playSegmentWithMode b actualStartTime clampedEndTime p)"

text \<open>
  The synchronous part of \<^verbatim>\<open>stop()\<close>, up to its first \<^verbatim>\<open>await\<close>: the two flags, the
  current source (stopped, disconnected, forgotten) and the current gain (disconnected,
  forgotten). The whole body is inside \<^verbatim>\<open>try { } catch\<close>, and nothing is thrown after
  it: \<^verbatim>\<open>stop()\<close> has no failing exit.
\<close>

definition stopSource :: "nat \<Rightarrow> SourceNode list \<Rightarrow> SourceNode list" where
  "stopSource h ns = (if h < length ns then ns[h := (ns ! h)\<lparr>stopped := True, connected := False\<rparr>] else ns)"

definition disconnectGain :: "nat \<Rightarrow> bool list \<Rightarrow> bool list" where
  "disconnectGain g gs = (if g < length gs then gs[g := False] else gs)"

definition stopNow :: "AudioPlayer \<Rightarrow> AudioPlayer" where
  "stopNow p =
     (let p1 = p\<lparr>playing := False, stopRequested := True\<rparr>;
          p2 = (case currentSource p1 of
                  Some h \<Rightarrow> p1\<lparr>sources := stopSource h (sources p1), currentSource := None\<rparr>
                | None \<Rightarrow> p1)
      in (case currentGain p2 of
            Some g \<Rightarrow> p2\<lparr>gains := disconnectGain g (gains p2), currentGain := None\<rparr>
          | None \<Rightarrow> p2))"

text \<open>
  The \<^verbatim>\<open>ended\<close> listener attached by \<^verbatim>\<open>playSegmentWithMode\<close>:
  \<^verbatim>\<open>this.isPlaying = false; if (this.onSegmentEnd) this.onSegmentEnd();\<close>
  It reads the callback registered when it runs.
\<close>

definition endedListenerBody :: "nat \<Rightarrow> AudioPlayer \<Rightarrow> AudioPlayer" where
  "endedListenerBody h p =
     (let p1 = p\<lparr>playing := False\<rparr>
      in (case onSegmentEnd p1 of
            Some cb \<Rightarrow> p1\<lparr>invocations := invocations p1 @
                             [\<lparr>callback = cb, ofSource = h, playingAtCall = playing p1,
                               stopRequestedAtCall = stopRequested p1\<rparr>]\<rparr>
          | None \<Rightarrow> p1))"

subsection \<open>The asynchronous methods\<close>

text \<open>
  \<^verbatim>\<open>playSegment\<close> and \<^verbatim>\<open>stop\<close> are \<^verbatim>\<open>async\<close>: each runs to its next \<^verbatim>\<open>await\<close> and
  is continued later by the event loop, and the code between two \<^verbatim>\<open>await\<close>s runs without
  interruption. A pending continuation is a \<open>task\<close>:
  \<^item> \<open>PlayAfterSettle\<close>: \<^verbatim>\<open>playSegment\<close> waiting for its 100 ms timer;
  \<^item> \<open>PlayAfterResume\<close>: \<^verbatim>\<open>playSegment\<close> awaiting \<^verbatim>\<open>audioContext.resume()\<close>;
  \<^item> \<open>StopAfterSuspend\<close>: \<^verbatim>\<open>stop\<close> awaiting \<^verbatim>\<open>audioContext.suspend()\<close>;
  \<^item> \<open>StopAfterPause\<close>: \<^verbatim>\<open>stop\<close> waiting for its 10 ms timer;
  \<^item> \<open>StopAfterResume\<close>: \<^verbatim>\<open>stop\<close> awaiting \<^verbatim>\<open>audioContext.resume()\<close>.
  The context's state changes when the promise of \<^verbatim>\<open>suspend()\<close> or \<^verbatim>\<open>resume()\<close>
  resolves. \<open>rejected\<close> holds the errors with which calls of \<^verbatim>\<open>playSegment\<close> have
  thrown.
\<close>

datatype task =
    PlayAfterSettle AudioBuffer "real option" "real option"
  | PlayAfterResume AudioBuffer "real option" "real option"
  | StopAfterSuspend
  | StopAfterPause
  | StopAfterResume

record engine =
  player :: AudioPlayer
  tasks :: "task list"
  rejected :: "error list"

text \<open>
  What happens to the engine: a method is called, the event loop continues the pending
  task at a position of the task list, or the platform delivers the \<^verbatim>\<open>ended\<close> event of a
  source. The platform delivers \<^verbatim>\<open>ended\<close> once, after the source has stopped playing:
  its buffer has been played through (it does not loop) or \<^verbatim>\<open>stop()\<close> was called on it.
\<close>

datatype action =
    CallPlaySegment "AudioBuffer option" "real option" "real option"
  | CallStop
  | CallSetLoopMode loop_mode "nat option"
  | Continue nat
  | SourceEnded nat

definition callStop :: "engine \<Rightarrow> engine" where
  "callStop e =
     (let p = stopNow (player e)
      in if contextState p \<noteq> Suspended
         then e\<lparr>player := p, tasks := tasks e @ [StopAfterSuspend]\<rparr>
         else e\<lparr>player := p\<rparr>)"

definition callPlaySegment :: "AudioBuffer option \<Rightarrow> real option \<Rightarrow> real option \<Rightarrow> engine \<Rightarrow> engine" where
  "callPlaySegment buf startTime endTime e =
     (case buf of
        None \<Rightarrow> e
      | Some b \<Rightarrow> let e1 = callStop e
                  in e1\<lparr>tasks := tasks e1 @ [PlayAfterSettle b startTime endTime]\<rparr>)"

definition finishPlay :: "AudioBuffer \<Rightarrow> real option \<Rightarrow> real option \<Rightarrow> engine \<Rightarrow> engine" where
  "finishPlay b startTime endTime e =
     (case playResolved b startTime endTime (player e) of
        Inl err \<Rightarrow> e\<lparr>rejected := rejected e @ [err]\<rparr>
      | Inr p \<Rightarrow> e\<lparr>player := p\<rparr>)"

fun continueTask :: "task \<Rightarrow> engine \<Rightarrow> engine" where
  "continueTask (PlayAfterSettle b startTime endTime) e =
     (let e1 = e\<lparr>player := (player e)\<lparr>stopRequested := False\<rparr>\<rparr>
      in if contextState (player e1) = Suspended
         then e1\<lparr>tasks := tasks e1 @ [PlayAfterResume b startTime endTime]\<rparr>
         else finishPlay b startTime endTime e1)"
| "continueTask (PlayAfterResume b startTime endTime) e =
     finishPlay b startTime endTime (e\<lparr>player := (player e)\<lparr>contextState := Running\<rparr>\<rparr>)"
| "continueTask StopAfterSuspend e =
     e\<lparr>player := (player e)\<lparr>contextState := Suspended\<rparr>, tasks := tasks e @ [StopAfterPause]\<rparr>"
| "continueTask StopAfterPause e = e\<lparr>tasks := tasks e @ [StopAfterResume]\<rparr>"
| "continueTask StopAfterResume e = e\<lparr>player := (player e)\<lparr>contextState := Running\<rparr>\<rparr>"

definition sourceEnded :: "nat \<Rightarrow> AudioPlayer \<Rightarrow> AudioPlayer" where
  "sourceEnded h p =
     (if h < length (sources p) \<and> started (sources p ! h) \<and> \<not> ended (sources p ! h) \<and>
         (stopped (sources p ! h) \<or> \<not> loop (sources p ! h))
      then let p1 = p\<lparr>sources := (sources p)[h := (sources p ! h)\<lparr>ended := True\<rparr>]\<rparr>
           in if endedListener (sources p ! h) then endedListenerBody h p1 else p1
      else p)"

fun step :: "engine \<Rightarrow> action \<Rightarrow> engine" where
  "step e (CallPlaySegment buf startTime endTime) = callPlaySegment buf startTime endTime e"
| "step e CallStop = callStop e"
| "step e (CallSetLoopMode mode cb) = e\<lparr>player := setLoopMode mode cb (player e)\<rparr>"
| "step e (Continue i) =
     (if i < length (tasks e)
      then continueTask (tasks e ! i) (e\<lparr>tasks := take i (tasks e) @ drop (Suc i) (tasks e)\<rparr>)
      else e)"
| "step e (SourceEnded h) = e\<lparr>player := sourceEnded h (player e)\<rparr>"

fun run :: "engine \<Rightarrow> action list \<Rightarrow> engine" where
  "run e [] = e"
| "run e (a # as) = run (step e a) as"

definition newEngine :: "context_state \<Rightarrow> engine" where
  "newEngine c = \<lparr>player = newPlayer c, tasks = [], rejected = []\<rparr>"

text \<open>The sources that sound: started, not stopped, not played through.\<close>

definition sounding :: "AudioPlayer \<Rightarrow> nat list" where
  "sounding p =
     filter (\<lambda>h. started (sources p ! h) \<and> \<not> stopped (sources p ! h) \<and> \<not> ended (sources p ! h))
       [0 ..< length (sources p)]"

text \<open>
  The buffer of the current source, and the buffer played after the last part of
  \<^verbatim>\<open>playSegment\<close>: none when it has thrown.
\<close>

definition playingBuffer :: "AudioPlayer \<Rightarrow> AudioBuffer option" where
  "playingBuffer p =
     (case currentSource p of
        None \<Rightarrow> None
      | Some h \<Rightarrow> if h < length (sources p) then Some (buffer (sources p ! h)) else None)"

definition played :: "error + AudioPlayer \<Rightarrow> AudioBuffer option" where
  "played r = (case r of Inl err \<Rightarrow> None | Inr p \<Rightarrow> playingBuffer p)"

text \<open>
  A caller that awaits each \<^verbatim>\<open>playSegment\<close> before it calls \<^verbatim>\<open>playSegment\<close> again: no
  call of \<^verbatim>\<open>playSegment\<close> with a buffer is made while a continuation of an earlier one
  is pending.
\<close>

fun playPending :: "task \<Rightarrow> bool" where
  "playPending (PlayAfterSettle b s t) = True"
| "playPending (PlayAfterResume b s t) = True"
| "playPending _ = False"

fun awaited :: "engine \<Rightarrow> action list \<Rightarrow> bool" where
  "awaited e [] = True"
| "awaited e (a # as) =
     ((case a of
         CallPlaySegment (Some b) s t \<Rightarrow> \<not> list_ex playPending (tasks e)
       | _ \<Rightarrow> True) \<and>
      awaited (step e a) as)"

text \<open>
  Buffers used in the examples: four samples at 8192 Hz (duration \<open>4 / 8192\<close>), and
  eight samples at 44100 Hz, whose duration is the double nearest to \<open>8 / 44100\<close>.
  \<open>sampleTime n\<close> is the double nearest to \<open>n / 44100\<close>.
\<close>

definition demoBuffer :: AudioBuffer where
  "demoBuffer = \<lparr>sampleRate = 8192, duration = 1 / 2048,
                  channelData = [[Sample 1, Sample 2, Sample 3, Sample 4]]\<rparr>"

definition sampleTime :: "int \<Rightarrow> real" where
  "sampleTime n = double (real_of_int n / 44100)"

definition cdBuffer :: AudioBuffer where
  "cdBuffer = \<lparr>sampleRate = 44100, duration = sampleTime 8,
                channelData = [[Sample 1, Sample 2, Sample 3, Sample 4,
                                Sample 5, Sample 6, Sample 7, Sample 8]]\<rparr>"

text \<open>
  Every source other than the current one has been stopped and disconnected; and the
  schedule of one awaited \<^verbatim>\<open>stop()\<close>: the call and its three continuations.
\<close>

definition othersStopped :: "AudioPlayer \<Rightarrow> bool" where
  "othersStopped p =
     list_all (\<lambda>h. currentSource p = Some h \<or>
                    (stopped (sources p ! h) \<and> \<not> connected (sources p ! h)))
       [0 ..< length (sources p)]"

definition stopAwaited :: "action list" where
  "stopAwaited = [CallStop, Continue 0, Continue 0, Continue 0]"

section \<open>The orchestration of scene audio (main.ts)\<close>

text \<open>
  Of a scene the handlers read \<^verbatim>\<open>index\<close> and the reference clip's \<^verbatim>\<open>audioFile\<close>,
  \<^verbatim>\<open>finalAudioStart\<close> and \<^verbatim>\<open>finalAudioEnd\<close>. \<^verbatim>\<open>SceneManager.getScene(index)\<close> is
  \<^verbatim>\<open>this.scenes[index - 1]\<close>, \<^verbatim>\<open>undefined\<close> outside the array.
\<close>

record Clip =
  audioFile :: "string option"
  finalAudioStart :: "real option"
  finalAudioEnd :: "real option"

record Scene =
  index :: int
  referenceClip :: "Clip option"

definition getScene :: "Scene list \<Rightarrow> int \<Rightarrow> Scene option" where
  "getScene scenes i =
     (if 1 \<le> i \<and> i \<le> int (length scenes) then Some (scenes ! nat (i - 1)) else None)"

text \<open>
  A request is what the closure of the \<^verbatim>\<open>LOAD_SCENE_AUDIO\<close> handler captures: the
  token drawn by \<^verbatim>\<open>Math.random().toString(36).substr(2, 9)\<close>, the scene and the state
  passed to the handler. It waits for the 100 ms timer, then for
  \<^verbatim>\<open>loadAudioFromZip\<close>, then for \<^verbatim>\<open>playSegment\<close>.
\<close>

record request =
  requestId :: string
  scene :: Scene
  handlerState :: AppState

datatype waiting = AwaitDelay request | AwaitLoad request | AwaitPlay request


text \<open>
  What a request does that can be seen from outside, each with the token of the request
  that did it: the calls on the audio player, the texts written to the status element
  and the events dispatched.
\<close>

datatype observable =
    LoadAudioFromZip string string
  | SetLoopMode string loop_mode
  | PlaySegment string int "real option" "real option"
  | StatusText string string
  | Dispatch string AppEvent


record glue =
  sceneManager :: "Scene list option"
  projectZip :: bool
  currentAudioRequestId :: "string option"
  isAudioLoading :: bool
  pending :: "waiting list"
  trace :: "observable list"


text \<open>
  The \<^verbatim>\<open>LOAD_SCENE_AUDIO\<close> handler, with the token it draws: when the scene exists, the
  token becomes the current one and the timer is set.
\<close>

definition handleLoadSceneAudio :: "int \<Rightarrow> AppState \<Rightarrow> string \<Rightarrow> glue \<Rightarrow> glue" where
  "handleLoadSceneAudio sceneIndex state token g =
     (case (case sceneManager g of None \<Rightarrow> None | Some m \<Rightarrow> getScene m sceneIndex) of
        None \<Rightarrow> g
      | Some sc \<Rightarrow>
          g\<lparr>currentAudioRequestId := Some token,
            pending := pending g @
              [AwaitDelay \<lparr>requestId = token, scene = sc, handlerState = state\<rparr>]\<rparr>)"

text \<open>
  \<^verbatim>\<open>requestId && currentAudioRequestId !== requestId\<close>: the empty string is falsy.
\<close>

definition cancelled :: "request \<Rightarrow> glue \<Rightarrow> bool" where
  "cancelled r g \<longleftrightarrow> requestId r \<noteq> [] \<and> currentAudioRequestId g \<noteq> Some (requestId r)"

text \<open>
  \<^verbatim>\<open>!scene.referenceClip || !scene.referenceClip.audioFile || !projectZip\<close> fails
  exactly when there is a clip with a non-empty file name and the archive is present;
  \<open>audioOf\<close> is that file name.
\<close>

definition audioOf :: "request \<Rightarrow> glue \<Rightarrow> string option" where
  "audioOf r g =
     (case referenceClip (scene r) of
        None \<Rightarrow> None
      | Some c \<Rightarrow> (case audioFile c of
                     None \<Rightarrow> None
                   | Some f \<Rightarrow> if f = [] \<or> \<not> projectZip g then None else Some f))"

text \<open>\<^verbatim>\<open>loadSceneAudio\<close> from its entry to \<^verbatim>\<open>await audioPlayer.loadAudioFromZip(...)\<close>.\<close>

definition loadSceneAudio :: "request \<Rightarrow> glue \<Rightarrow> glue" where
  "loadSceneAudio r g =
     (if cancelled r g then g
      else let g1 = g\<lparr>isAudioLoading := True\<rparr> in
        case audioOf r g1 of
          None \<Rightarrow>
            g1\<lparr>trace := trace g1 @ [StatusText (requestId r) ''No audio available'',
                                     Dispatch (requestId r) AUDIO_STOPPED],
               isAudioLoading := False\<rparr>
        | Some f \<Rightarrow>
            let g2 = g1\<lparr>trace := trace g1 @ [StatusText (requestId r) ''Loading audio...'']\<rparr> in
            if cancelled r g2 then g2\<lparr>isAudioLoading := False\<rparr>
            else g2\<lparr>trace := trace g2 @ [LoadAudioFromZip (requestId r) f],
                    pending := pending g2 @ [AwaitLoad r]\<rparr>)"

text \<open>
  From the result of \<^verbatim>\<open>loadAudioFromZip\<close> (a buffer or \<^verbatim>\<open>null\<close>) to
  \<^verbatim>\<open>await audioPlayer.playSegment(...)\<close>. Reading \<^verbatim>\<open>scene.referenceClip.finalAudioStart\<close>
  of a scene without a clip throws, which the \<^verbatim>\<open>catch\<close> block turns into the status
  \<^verbatim>\<open>Audio error\<close>; the \<^verbatim>\<open>finally\<close> block clears \<^verbatim>\<open>isAudioLoading\<close> on every exit.
\<close>

definition afterLoad :: "request \<Rightarrow> AudioBuffer option \<Rightarrow> glue \<Rightarrow> glue" where
  "afterLoad r audioBuffer g =
     (if cancelled r g then g\<lparr>isAudioLoading := False\<rparr>
      else case audioBuffer of
        Some b \<Rightarrow>
          (case referenceClip (scene r) of
             Some c \<Rightarrow>
               g\<lparr>trace := trace g @
                    [SetLoopMode (requestId r) (if isAutoMode (handlerState r) then Once else Loop),
                     PlaySegment (requestId r) (index (scene r)) (finalAudioStart c) (finalAudioEnd c)],
                 pending := pending g @ [AwaitPlay r]\<rparr>
           | None \<Rightarrow>
               g\<lparr>trace := trace g @ [StatusText (requestId r) ''Audio error'',
                                      Dispatch (requestId r) AUDIO_STOPPED],
                 isAudioLoading := False\<rparr>)
      | None \<Rightarrow>
          g\<lparr>trace := trace g @ [StatusText (requestId r) ''Failed to load audio'',
                                 Dispatch (requestId r) AUDIO_STOPPED],
            isAudioLoading := False\<rparr>)"

text \<open>
  After \<^verbatim>\<open>playSegment\<close> has resolved, and after it has thrown (the \<^verbatim>\<open>catch\<close> block);
  the token is not compared again in either.
\<close>

definition afterPlay :: "request \<Rightarrow> glue \<Rightarrow> glue" where
  "afterPlay r g =
     g\<lparr>trace := trace g @ [Dispatch (requestId r) AUDIO_STARTED,
                            StatusText (requestId r) ''Playing (looped)''],
       isAudioLoading := False\<rparr>"

definition playFailed :: "request \<Rightarrow> glue \<Rightarrow> glue" where
  "playFailed r g =
     g\<lparr>trace := trace g @ [StatusText (requestId r) ''Audio error'',
                            Dispatch (requestId r) AUDIO_STOPPED],
       isAudioLoading := False\<rparr>"

text \<open>
  What happens to the orchestration: the handler runs for an effect (with the token it
  draws), or the event loop continues the pending request at a position of the list:
  its timer fires, its load resolves with a buffer or \<^verbatim>\<open>null\<close>, or its
  \<^verbatim>\<open>playSegment\<close> resolves or throws. The timer's callback calls \<^verbatim>\<open>loadSceneAudio\<close> only when
  the token is still the current one.
\<close>

datatype happening =
    Effect int AppState string
  | TimerFires nat
  | LoadResolves nat "AudioBuffer option"
  | PlayResolves nat
  | PlayRejects nat

definition without :: "nat \<Rightarrow> glue \<Rightarrow> glue" where
  "without i g = g\<lparr>pending := take i (pending g) @ drop (Suc i) (pending g)\<rparr>"

fun gstep :: "glue \<Rightarrow> happening \<Rightarrow> glue" where
  "gstep g (Effect sceneIndex state token) = handleLoadSceneAudio sceneIndex state token g"
| "gstep g (TimerFires i) =
     (if i < length (pending g)
      then (case pending g ! i of
              AwaitDelay r \<Rightarrow>
                if currentAudioRequestId g = Some (requestId r)
                then loadSceneAudio r (without i g)
                else without i g
            | _ \<Rightarrow> g)
      else g)"
| "gstep g (LoadResolves i audioBuffer) =
     (if i < length (pending g)
      then (case pending g ! i of
              AwaitLoad r \<Rightarrow> afterLoad r audioBuffer (without i g)
            | _ \<Rightarrow> g)
      else g)"
| "gstep g (PlayResolves i) =
     (if i < length (pending g)
      then (case pending g ! i of
              AwaitPlay r \<Rightarrow> afterPlay r (without i g)
            | _ \<Rightarrow> g)
      else g)"
| "gstep g (PlayRejects i) =
     (if i < length (pending g)
      then (case pending g ! i of
              AwaitPlay r \<Rightarrow> playFailed r (without i g)
            | _ \<Rightarrow> g)
      else g)"





section \<open>Invariants and example schedules\<close>

text \<open>
  The invariant of the engine under awaited calls of \<^verbatim>\<open>playSegment\<close>: every source but
  the current one is stopped and disconnected, the current handle names a source, no
  source is current while a \<^verbatim>\<open>playSegment\<close> is pending, and at most one is pending.
\<close>

definition engine_inv :: "engine \<Rightarrow> bool" where
  "engine_inv e \<longleftrightarrow>
     othersStopped (player e) \<and>
     (\<forall>h. currentSource (player e) = Some h \<longrightarrow> h < length (sources (player e))) \<and>
     (list_ex playPending (tasks e) \<longrightarrow> currentSource (player e) = None) \<and>
     length (filter playPending (tasks e)) \<le> 1"

text \<open>
  The invariant of the log of callback invocations: each was made with \<^verbatim>\<open>isPlaying\<close>
  false, by the listener of a source whose \<^verbatim>\<open>ended\<close> event has been delivered, and no
  source has two.
\<close>

definition log_inv :: "AudioPlayer \<Rightarrow> bool" where
  "log_inv p \<longleftrightarrow>
     (\<forall>v \<in> set (invocations p).
        \<not> playingAtCall v \<and> ofSource v < length (sources p) \<and>
        ended (sources p ! ofSource v) \<and> endedListener (sources p ! ofSource v)) \<and>
     distinct (map ofSource (invocations p))"







text \<open>
  Schedules on a new engine whose context is running. After a call of \<^verbatim>\<open>playSegment\<close>
  the task list is \<open>[StopAfterSuspend, PlayAfterSettle]\<close>; \<open>Continue 0, Continue 1,
  Continue 1\<close> runs the suspend, pause and resume of the inner \<^verbatim>\<open>stop()\<close>, and the last
  \<open>Continue 0\<close> the timer of \<^verbatim>\<open>playSegment\<close>.
  \<^item> \<open>playedOnce\<close>: mode \<^verbatim>\<open>'once'\<close> with callback 7, one segment started;
  \<^item> \<open>stoppedOnce\<close>: the same, then \<^verbatim>\<open>stop()\<close> is called;
  \<^item> \<open>twoPlays\<close>: two calls of \<^verbatim>\<open>playSegment\<close>, the second after the first has completed;
  \<^item> \<open>overlappingPlays\<close>: two calls of \<^verbatim>\<open>playSegment\<close>, the second before the timer of
    the first has fired; the two inner stops complete, then the two timers fire in order.
\<close>

definition playedOnce :: "action list" where
  "playedOnce = [CallSetLoopMode Once (Some 7),
     CallPlaySegment (Some demoBuffer) (Some (1 / 8192)) (Some (3 / 8192)),
     Continue 0, Continue 1, Continue 1, Continue 0]"

definition stoppedOnce :: "action list" where
  "stoppedOnce = playedOnce @ [CallStop]"

definition twoPlays :: "action list" where
  "twoPlays = [CallPlaySegment (Some demoBuffer) None None,
     Continue 0, Continue 1, Continue 1, Continue 0,
     CallPlaySegment (Some demoBuffer) (Some (1 / 8192)) (Some (3 / 8192)),
     Continue 0, Continue 1, Continue 1, Continue 0]"

definition overlappingPlays :: "action list" where
  "overlappingPlays = [CallPlaySegment (Some demoBuffer) None None,
     CallPlaySegment (Some demoBuffer) None None,
     Continue 0, Continue 1, Continue 2, Continue 2, Continue 2, Continue 2,
     Continue 0, Continue 0]"

text \<open>
  One awaited call of \<^verbatim>\<open>playSegment(buffer, startTime, endTime)\<close> on a new engine whose
  context is running.
\<close>

definition playAwaited :: "AudioBuffer \<Rightarrow> real option \<Rightarrow> real option \<Rightarrow> action list" where
  "playAwaited b startTime endTime =
     [CallPlaySegment (Some b) startTime endTime, Continue 0, Continue 1, Continue 1, Continue 0]"

text \<open>A buffer of three samples at 8192 Hz.\<close>

definition threeSamples :: AudioBuffer where
  "threeSamples = \<lparr>sampleRate = 8192, duration = 3 / 8192,
                    channelData = [[Sample 5, Sample 6, Sample 7]]\<rparr>"

declare copy_samples.simps [simp del] copy_channels.simps [simp del]

section \<open>Properties of the event system\<close>

lemma index_inv_step:
  assumes "currentSceneIndex s = 1 \<or> (1 \<le> currentSceneIndex s \<and> currentSceneIndex s \<le> totalScenes s)"
  shows "currentSceneIndex (fst (dispatch s e)) = 1 \<or>
         (1 \<le> currentSceneIndex (fst (dispatch s e)) \<and>
          currentSceneIndex (fst (dispatch s e)) \<le> totalScenes (fst (dispatch s e)))"
  using assms by (cases e) (auto simp: dispatch_def Let_def)

lemma index_inv_all:
  "currentSceneIndex s = 1 \<or> (1 \<le> currentSceneIndex s \<and> currentSceneIndex s \<le> totalScenes s) \<Longrightarrow>
   currentSceneIndex (dispatch_all s es) = 1 \<or>
   (1 \<le> currentSceneIndex (dispatch_all s es) \<and>
    currentSceneIndex (dispatch_all s es) \<le> totalScenes (dispatch_all s es))"
proof (induction es arbitrary: s)
  case Nil
  then show ?case by simp
next
  case (Cons e es)
  from index_inv_step [OF Cons.prems] show ?case
    by (simp add: Cons.IH)
qed

text \<open>
  Claim C3, as stated, fails: loading a project with no scenes sets \<open>projectLoaded\<close>
  and puts the index at 1 while \<open>totalScenes\<close> is 0.
\<close>

theorem C3_counterexample:
  "projectLoaded (dispatch_all initialState [PROJECT_LOADED 0]) \<and>
   \<not> (1 \<le> currentSceneIndex (dispatch_all initialState [PROJECT_LOADED 0]) \<and>
      currentSceneIndex (dispatch_all initialState [PROJECT_LOADED 0])
        \<le> totalScenes (dispatch_all initialState [PROJECT_LOADED 0]))"
  by (simp add: dispatch_def initialState_def)

text \<open>
  Claim C3, amended: in every state reached from the initial state by dispatching any
  sequence of events, if \<open>projectLoaded\<close> is true and the project has at least one scene
  (\<open>totalScenes \<ge> 1\<close>), then \<open>1 \<le> currentSceneIndex \<le> totalScenes\<close>.
\<close>

theorem C3_index_in_range:
  assumes "projectLoaded (dispatch_all initialState es)"
    and "1 \<le> totalScenes (dispatch_all initialState es)"
  shows "1 \<le> currentSceneIndex (dispatch_all initialState es) \<and>
         currentSceneIndex (dispatch_all initialState es) \<le> totalScenes (dispatch_all initialState es)"
proof -
  have "currentSceneIndex initialState = 1 \<or>
        (1 \<le> currentSceneIndex initialState \<and> currentSceneIndex initialState \<le> totalScenes initialState)"
    by (simp add: initialState_def)
  from index_inv_all [OF this, of es] assms(2) show ?thesis by auto
qed

theorem C3_index_in_range_witness:
  "projectLoaded (dispatch_all initialState [PROJECT_LOADED 3, SCENE_NAVIGATE 1, MODE_TOGGLE, AUTO_ADVANCE, AUTO_ADVANCE]) \<and>
   1 \<le> totalScenes (dispatch_all initialState [PROJECT_LOADED 3, SCENE_NAVIGATE 1, MODE_TOGGLE, AUTO_ADVANCE, AUTO_ADVANCE]) \<and>
   1 \<le> currentSceneIndex (dispatch_all initialState [PROJECT_LOADED 3, SCENE_NAVIGATE 1, MODE_TOGGLE, AUTO_ADVANCE, AUTO_ADVANCE]) \<and>
   currentSceneIndex (dispatch_all initialState [PROJECT_LOADED 3, SCENE_NAVIGATE 1, MODE_TOGGLE, AUTO_ADVANCE, AUTO_ADVANCE])
     \<le> totalScenes (dispatch_all initialState [PROJECT_LOADED 3, SCENE_NAVIGATE 1, MODE_TOGGLE, AUTO_ADVANCE, AUTO_ADVANCE])"
proof -
  have l: "projectLoaded (dispatch_all initialState [PROJECT_LOADED 3, SCENE_NAVIGATE 1, MODE_TOGGLE, AUTO_ADVANCE, AUTO_ADVANCE])"
    by (simp add: dispatch_def initialState_def)
  have t: "1 \<le> totalScenes (dispatch_all initialState [PROJECT_LOADED 3, SCENE_NAVIGATE 1, MODE_TOGGLE, AUTO_ADVANCE, AUTO_ADVANCE])"
    by (simp add: dispatch_def initialState_def)
  from C3_index_in_range [OF l t] l t show ?thesis by simp
qed

text \<open>
  Claim C4: at \<open>currentSceneIndex = 1\<close>, \<open>SCENE_NAVIGATE{direction: -1}\<close> returns the
  input object itself (clamped); with \<open>isAutoMode\<close> and
  \<open>currentSceneIndex = totalScenes\<close>, \<open>AUTO_ADVANCE\<close> returns a state with
  \<open>currentSceneIndex = 1\<close> (wrapped).
\<close>

theorem C4_clamp_vs_wrap:
  "(currentSceneIndex s = 1 \<longrightarrow> reduce s (SCENE_NAVIGATE (- 1)) = SameObject) \<and>
   (isAutoMode t \<and> currentSceneIndex t = totalScenes t \<longrightarrow>
      currentSceneIndex (contents t (reduce t AUTO_ADVANCE)) = 1)"
  by (simp add: Let_def)

theorem C4_clamp_vs_wrap_witness:
  "currentSceneIndex (initialState\<lparr>totalScenes := 4\<rparr>) = 1 \<and>
   reduce (initialState\<lparr>totalScenes := 4\<rparr>) (SCENE_NAVIGATE (- 1)) = SameObject \<and>
   isAutoMode (initialState\<lparr>totalScenes := 4, currentSceneIndex := 4, isAutoMode := True\<rparr>) \<and>
   currentSceneIndex (initialState\<lparr>totalScenes := 4, currentSceneIndex := 4, isAutoMode := True\<rparr>)
     = totalScenes (initialState\<lparr>totalScenes := 4, currentSceneIndex := 4, isAutoMode := True\<rparr>) \<and>
   currentSceneIndex (contents (initialState\<lparr>totalScenes := 4, currentSceneIndex := 4, isAutoMode := True\<rparr>)
      (reduce (initialState\<lparr>totalScenes := 4, currentSceneIndex := 4, isAutoMode := True\<rparr>) AUTO_ADVANCE)) = 1"
  using C4_clamp_vs_wrap [of "initialState\<lparr>totalScenes := 4\<rparr>"
      "initialState\<lparr>totalScenes := 4, currentSceneIndex := 4, isAutoMode := True\<rparr>"]
  by (simp add: initialState_def)

text \<open>
  Claim C5: for a loaded state and an index \<open>newIndex\<close> in \<open>[1, totalScenes]\<close> other
  than the current one, dispatching \<open>SCENE_SET{index: newIndex}\<close> produces exactly
  \<open>[UPDATE_UI, STOP_AUDIO, LOAD_SCENE_AUDIO{newIndex}]\<close>.
\<close>

theorem C5_scene_set_effects:
  assumes "projectLoaded s"
    and "1 \<le> newIndex" and "newIndex \<le> totalScenes s"
    and "newIndex \<noteq> currentSceneIndex s"
  shows "snd (dispatch s (SCENE_SET newIndex)) = [UPDATE_UI, STOP_AUDIO, LOAD_SCENE_AUDIO newIndex]"
  using assms by (simp add: dispatch_def getEffects_def)

theorem C5_scene_set_effects_witness:
  "projectLoaded (initialState\<lparr>projectLoaded := True, totalScenes := 5\<rparr>) \<and>
   (1::int) \<le> 3 \<and> 3 \<le> totalScenes (initialState\<lparr>projectLoaded := True, totalScenes := 5\<rparr>) \<and>
   3 \<noteq> currentSceneIndex (initialState\<lparr>projectLoaded := True, totalScenes := 5\<rparr>) \<and>
   snd (dispatch (initialState\<lparr>projectLoaded := True, totalScenes := 5\<rparr>) (SCENE_SET 3))
     = [UPDATE_UI, STOP_AUDIO, LOAD_SCENE_AUDIO 3]"
proof -
  have a: "projectLoaded (initialState\<lparr>projectLoaded := True, totalScenes := 5\<rparr>)" by simp
  have b: "(1::int) \<le> 3" by simp
  have c: "3 \<le> totalScenes (initialState\<lparr>projectLoaded := True, totalScenes := 5\<rparr>)" by simp
  have d: "3 \<noteq> currentSceneIndex (initialState\<lparr>projectLoaded := True, totalScenes := 5\<rparr>)"
    by (simp add: initialState_def)
  from C5_scene_set_effects [OF a b c d] a b c d show ?thesis by simp
qed

text \<open>
  Claim C10: \<open>MODE_TOGGLE\<close>, \<open>PLAY_PAUSE\<close>, \<open>AUDIO_STARTED\<close> and \<open>AUDIO_STOPPED\<close>
  always allocate a new state object, so for every state the effect list of each of them
  starts with \<open>UPDATE_UI\<close>, also when no field changes value.
\<close>

theorem C10_always_update_ui:
  "reduce s MODE_TOGGLE \<noteq> SameObject \<and> reduce s PLAY_PAUSE \<noteq> SameObject \<and>
   reduce s AUDIO_STARTED \<noteq> SameObject \<and> reduce s AUDIO_STOPPED \<noteq> SameObject \<and>
   hd (snd (dispatch s MODE_TOGGLE)) = UPDATE_UI \<and> UPDATE_UI \<in> set (snd (dispatch s MODE_TOGGLE)) \<and>
   hd (snd (dispatch s PLAY_PAUSE)) = UPDATE_UI \<and> UPDATE_UI \<in> set (snd (dispatch s PLAY_PAUSE)) \<and>
   hd (snd (dispatch s AUDIO_STARTED)) = UPDATE_UI \<and> UPDATE_UI \<in> set (snd (dispatch s AUDIO_STARTED)) \<and>
   hd (snd (dispatch s AUDIO_STOPPED)) = UPDATE_UI \<and> UPDATE_UI \<in> set (snd (dispatch s AUDIO_STOPPED)) \<and>
   (isPlaying s \<longrightarrow> contents s (reduce s AUDIO_STARTED) = s \<and> snd (dispatch s AUDIO_STARTED) = [UPDATE_UI])"
  by (simp add: dispatch_def getEffects_def)

theorem C10_always_update_ui_witness:
  "isPlaying (initialState\<lparr>isPlaying := True\<rparr>) \<and>
   contents (initialState\<lparr>isPlaying := True\<rparr>) (reduce (initialState\<lparr>isPlaying := True\<rparr>) AUDIO_STARTED)
     = initialState\<lparr>isPlaying := True\<rparr> \<and>
   snd (dispatch (initialState\<lparr>isPlaying := True\<rparr>) AUDIO_STARTED) = [UPDATE_UI]"
  using C10_always_update_ui [of "initialState\<lparr>isPlaying := True\<rparr>"] by simp

section \<open>Rounding to a double\<close>

text \<open>
  \<open>pow2\<close> is the power of two; \<open>exponent\<close> is the binary exponent; the error of
  \<open>double\<close> is at most half the spacing, that is at most \<open>x / 2 ^ 53\<close> for a normal
  \<open>x\<close>.
\<close>

lemma pow2_powr: "pow2 k = 2 powr (real_of_int k)"
proof (cases "0 \<le> k")
  case True
  then have "2 powr (real_of_int k) = 2 powr (real (nat k))" by simp
  also have "\<dots> = 2 ^ nat k" by (rule powr_realpow) simp
  finally show ?thesis using True by (simp add: pow2_def)
next
  case False
  then have "2 powr (real_of_int k) = 2 powr (- real (nat (- k)))" by simp
  also have "\<dots> = 1 / 2 powr (real (nat (- k)))" by (simp add: powr_minus field_simps)
  also have "2 powr (real (nat (- k))) = 2 ^ nat (- k)" by (rule powr_realpow) simp
  finally show ?thesis using False by (simp add: pow2_def)
qed

lemma pow2_pos [simp]: "0 < pow2 k"
  by (simp add: pow2_powr)

lemma pow2_nonneg [simp]: "0 \<le> pow2 k"
  by (simp add: pow2_powr)

lemma pow2_abs [simp]: "\<bar>pow2 k\<bar> = pow2 k"
  by (simp add: pow2_powr)

lemma pow2_le_iff: "pow2 j \<le> pow2 k \<longleftrightarrow> j \<le> k"
  by (simp add: pow2_powr)

lemma pow2_add: "pow2 (j + k) = pow2 j * pow2 k"
  by (simp add: pow2_powr powr_add)

lemma pow2_less_iff: "pow2 j < pow2 k \<longleftrightarrow> j < k"
  by (simp add: pow2_powr)

lemma pow2_nat: "pow2 (int n) = 2 ^ n"
  by (simp add: pow2_def)

lemma exponent_bounds:
  assumes "0 < x"
  shows "pow2 (exponent x) \<le> x \<and> x < pow2 (exponent x + 1)"
proof (cases "1 \<le> x")
  case True
  then have pos: "0 < \<lfloor>x\<rfloor>" by linarith
  let ?b = "bitlen \<lfloor>x\<rfloor>"
  from bitlen_bounds [OF pos]
  have lo: "2 ^ nat (?b - 1) \<le> \<lfloor>x\<rfloor>" and hi: "\<lfloor>x\<rfloor> < 2 ^ nat ?b" by simp_all
  have b1: "1 \<le> ?b" using pos by (simp add: bitlen_alt_def)
  have fl: "real_of_int \<lfloor>x\<rfloor> \<le> x" "x < real_of_int \<lfloor>x\<rfloor> + 1" by linarith+
  have "real_of_int (2 ^ nat (?b - 1)) \<le> real_of_int \<lfloor>x\<rfloor>" using lo by linarith
  then have "2 ^ nat (?b - 1) \<le> real_of_int \<lfloor>x\<rfloor>" by simp
  with fl have "2 ^ nat (?b - 1) \<le> x" by linarith
  then have 1: "pow2 (?b - 1) \<le> x" using b1 by (simp add: pow2_def)
  have "\<lfloor>x\<rfloor> + 1 \<le> 2 ^ nat ?b" using hi by simp
  then have "real_of_int (\<lfloor>x\<rfloor> + 1) \<le> real_of_int (2 ^ nat ?b)" by linarith
  then have "real_of_int \<lfloor>x\<rfloor> + 1 \<le> 2 ^ nat ?b" by simp
  with fl have "x < 2 ^ nat ?b" by linarith
  then have 2: "x < pow2 ?b" using b1 by (simp add: pow2_def)
  from 1 2 True show ?thesis by (simp add: exponent_def)
next
  case False
  with assms have y: "1 < 1 / x" by simp
  let ?n = "\<lceil>1 / x\<rceil> - 1"
  have pos: "0 < ?n" using y by linarith
  let ?b = "bitlen ?n"
  from bitlen_bounds [OF pos]
  have lo: "2 ^ nat (?b - 1) \<le> ?n" and hi: "?n < 2 ^ nat ?b" by simp_all
  have b1: "1 \<le> ?b" using pos by (simp add: bitlen_alt_def)
  have "\<lceil>1 / x\<rceil> \<le> 2 ^ nat ?b" using hi by simp
  then have "real_of_int \<lceil>1 / x\<rceil> \<le> real_of_int (2 ^ nat ?b)" by linarith
  then have "real_of_int \<lceil>1 / x\<rceil> \<le> 2 ^ nat ?b" by simp
  moreover have "1 / x \<le> real_of_int \<lceil>1 / x\<rceil>" by linarith
  ultimately have "1 / x \<le> 2 ^ nat ?b" by linarith
  then have "1 \<le> 2 ^ nat ?b * x" using assms by (simp add: field_simps)
  then have 1: "pow2 (- ?b) \<le> x" using b1 by (simp add: pow2_def field_simps)
  have "real_of_int (2 ^ nat (?b - 1)) \<le> real_of_int ?n" using lo by linarith
  then have "2 ^ nat (?b - 1) \<le> real_of_int ?n" by simp
  moreover have "real_of_int ?n < 1 / x" by linarith
  ultimately have "2 ^ nat (?b - 1) < 1 / x" by linarith
  then have lt: "2 ^ nat (?b - 1) * x < 1" using assms by (simp add: field_simps)
  have 2: "x < pow2 (- ?b + 1)"
  proof (cases "?b = 1")
    case True
    with lt show ?thesis by (simp add: pow2_def)
  next
    case F: False
    with b1 have p: "pow2 (- ?b + 1) = 1 / 2 ^ nat (?b - 1)" by (simp add: pow2_def)
    have "x * 2 ^ nat (?b - 1) < 1" using lt by (simp only: mult.commute)
    then have "x < 1 / 2 ^ nat (?b - 1)" by (simp only: pos_less_divide_eq zero_less_power zero_less_numeral)
    with p show ?thesis by simp
  qed
  from 1 2 False show ?thesis by (simp add: exponent_def)
qed

lemma roundHalfEven_error: "\<bar>real_of_int (roundHalfEven x) - x\<bar> \<le> 1 / 2"
proof -
  have fl: "real_of_int \<lfloor>x\<rfloor> \<le> x" "x < real_of_int \<lfloor>x\<rfloor> + 1" by linarith+
  consider "x - real_of_int \<lfloor>x\<rfloor> < 1 / 2" | "1 / 2 < x - real_of_int \<lfloor>x\<rfloor>"
    | "x - real_of_int \<lfloor>x\<rfloor> = 1 / 2" by linarith
  then show ?thesis
  proof cases
    case 1
    then have "roundHalfEven x = \<lfloor>x\<rfloor>" by (simp add: roundHalfEven_def Let_def)
    with 1 fl show ?thesis by simp
  next
    case 2
    then have "roundHalfEven x = \<lfloor>x\<rfloor> + 1" by (simp add: roundHalfEven_def Let_def)
    with 2 fl show ?thesis by simp
  next
    case 3
    then have "roundHalfEven x = \<lfloor>x\<rfloor> \<or> roundHalfEven x = \<lfloor>x\<rfloor> + 1"
      by (simp add: roundHalfEven_def Let_def)
    with 3 show ?thesis by auto
  qed
qed

lemma roundHalfEven_nonneg:
  assumes "0 \<le> x"
  shows "0 \<le> roundHalfEven x"
proof -
  from assms have "0 \<le> \<lfloor>x\<rfloor>" by simp
  then show ?thesis by (simp add: roundHalfEven_def Let_def)
qed

lemma double_nonneg:
  assumes "0 \<le> x"
  shows "0 \<le> double x"
proof (cases "x = 0")
  case True
  then show ?thesis by (simp add: double_def)
next
  case False
  let ?k = "max (exponent \<bar>x\<bar> - 52) (- 1074)"
  from False assms have x: "0 < x" by simp
  then have d: "double x = real_of_int (roundHalfEven (x / pow2 ?k)) * pow2 ?k"
    by (simp add: double_def Let_def)
  have "0 \<le> x / pow2 ?k" using x by simp
  then have "0 \<le> real_of_int (roundHalfEven (x / pow2 ?k))"
    using roundHalfEven_nonneg by simp
  moreover have "0 \<le> pow2 ?k" using pow2_pos [of ?k] by linarith
  ultimately show ?thesis unfolding d by (rule mult_nonneg_nonneg)
qed

lemma double_error:
  assumes "pow2 (- 1022) \<le> x"
  shows "\<bar>double x - x\<bar> \<le> x / 2 ^ 53"
proof -
  have x: "0 < x" using assms pow2_pos [of "- 1022"] by linarith
  from exponent_bounds [OF x] have lo: "pow2 (exponent x) \<le> x" and hi: "x < pow2 (exponent x + 1)"
    by simp_all
  from assms hi have "pow2 (- 1022) < pow2 (exponent x + 1)" by linarith
  then have ex: "- 1022 \<le> exponent x" by (simp add: pow2_less_iff)
  let ?k = "exponent x - 52"
  have k: "max ?k (- 1074) = ?k" using ex by simp
  have d: "double x = real_of_int (roundHalfEven (x / pow2 ?k)) * pow2 ?k"
    using x k by (simp add: double_def Let_def)
  have nz: "pow2 ?k \<noteq> 0" using pow2_pos [of ?k] by linarith
  have "double x - x = (real_of_int (roundHalfEven (x / pow2 ?k)) - x / pow2 ?k) * pow2 ?k"
    using nz by (simp add: d field_simps)
  then have "\<bar>double x - x\<bar> = \<bar>real_of_int (roundHalfEven (x / pow2 ?k)) - x / pow2 ?k\<bar> * \<bar>pow2 ?k\<bar>"
    by (simp only: abs_mult)
  also have "\<bar>pow2 ?k\<bar> = pow2 ?k" by (rule pow2_abs)
  finally have "\<bar>double x - x\<bar> = \<bar>real_of_int (roundHalfEven (x / pow2 ?k)) - x / pow2 ?k\<bar> * pow2 ?k" .
  also have "\<dots> \<le> 1 / 2 * pow2 ?k"
    by (rule mult_right_mono [OF roundHalfEven_error]) simp
  also have "pow2 ?k = pow2 (exponent x) * pow2 (- 52)"
    using pow2_add [of "exponent x" "- 52"] by simp
  also have "1 / 2 * (pow2 (exponent x) * pow2 (- 52)) = pow2 (exponent x) / 2 ^ 53"
  proof -
    have "pow2 (- 52) = 1 / 2 ^ 52" by (simp add: pow2_def)
    then show ?thesis by simp
  qed
  also have "\<dots> \<le> x / 2 ^ 53" using lo by (simp add: divide_right_mono)
  finally show ?thesis .
qed

lemmas double_eval = double_def exponent_def roundHalfEven_def pow2_def Let_def
  compute_bitlen [of "numeral n" for n] compute_bitlen [of 1]

lemma tolerance_value: "tolerance = 3602879701896397 / 36028797018963968"
  by (simp add: tolerance_def double_eval)

text \<open>
  A duration of at most \<open>2 ^ 49\<close> seconds is not above \<^verbatim>\<open>buffer.duration + tolerance\<close>
  as the code computes it.
\<close>

lemma within_tolerance:
  assumes "0 \<le> d" and "d \<le> 2 ^ 49"
  shows "d \<le> double (d + tolerance)"
proof -
  let ?x = "d + tolerance"
  have t: "1 / 10 \<le> tolerance" "tolerance \<le> 1" by (simp_all add: tolerance_value)
  have "pow2 (- 1022) \<le> pow2 (- 4)" by (simp add: pow2_le_iff)
  also have "pow2 (- 4) \<le> 1 / 10" by (simp add: pow2_def)
  finally have "pow2 (- 1022) \<le> 1 / 10" .
  with t assms have "pow2 (- 1022) \<le> ?x" by linarith
  from double_error [OF this] have "?x - ?x / 2 ^ 53 \<le> double ?x" by linarith
  moreover have "?x / 2 ^ 53 \<le> tolerance"
  proof -
    have "?x \<le> 2 ^ 49 + 1" using assms t by linarith
    also have "\<dots> \<le> (1 / 10) * 2 ^ 53" by simp
    also have "\<dots> \<le> tolerance * 2 ^ 53" using t by simp
    finally show ?thesis by (simp add: field_simps)
  qed
  ultimately show ?thesis by linarith
qed


lemma double_int_floor_nonneg: "0 \<le> x \<Longrightarrow> 0 \<le> \<lfloor>double x\<rfloor>"
  using double_nonneg [of x] by simp

section \<open>Segment extraction\<close>

lemma length_copy_samples [simp]:
  "length (copy_samples orig st n i seg) = length seg"
  by (induction orig st n i seg rule: copy_samples.induct)
     (subst copy_samples.simps, simp add: Let_def)

lemma nth_copy_samples:
  "j < length seg \<Longrightarrow>
   copy_samples orig st n i seg ! j =
     (if i \<le> j \<and> int j < n \<and> st + int j < int (length orig)
      then read_sample orig (st + int j) else seg ! j)"
proof (induction orig st n i seg rule: copy_samples.induct)
  case (1 orig st n i seg)
  show ?case
  proof (cases "int i < n")
    case False
    then show ?thesis by (subst copy_samples.simps) auto
  next
    case True
    let ?seg' = "if st + int i < int (length orig)
                 then seg[i := read_sample orig (st + int i)] else seg"
    have len: "j < length ?seg'" using "1.prems" by simp
    have step: "copy_samples orig st n i seg = copy_samples orig st n (i + 1) ?seg'"
      using True by (subst copy_samples.simps) (simp add: Let_def)
    have IH: "copy_samples orig st n (i + 1) ?seg' ! j =
      (if i + 1 \<le> j \<and> int j < n \<and> st + int j < int (length orig)
       then read_sample orig (st + int j) else ?seg' ! j)"
      using "1.IH" [OF True refl len] by simp
    show ?thesis
      unfolding step IH using True "1.prems"
      by (cases "j = i") (auto simp: nth_list_update)
  qed
qed

lemma length_copy_channels [simp]:
  "length (copy_channels b st n ch segs) = length segs"
  by (induction b st n ch segs rule: copy_channels.induct)
     (subst copy_channels.simps, simp)

lemma nth_copy_channels:
  "c < length segs \<Longrightarrow>
   copy_channels b st n ch segs ! c =
     (if ch \<le> c \<and> c < numberOfChannels b
      then copy_samples (channelData b ! c) st n 0 (segs ! c) else segs ! c)"
proof (induction b st n ch segs rule: copy_channels.induct)
  case (1 b st n ch segs)
  show ?case
  proof (cases "ch < numberOfChannels b")
    case False
    then show ?thesis by (subst copy_channels.simps) auto
  next
    case True
    let ?segs' = "segs[ch := copy_samples (channelData b ! ch) st n 0 (segs ! ch)]"
    have step: "copy_channels b st n ch segs = copy_channels b st n (ch + 1) ?segs'"
      using True by (subst copy_channels.simps) simp
    have IH: "copy_channels b st n (ch + 1) ?segs' ! c =
      (if ch + 1 \<le> c \<and> c < numberOfChannels b
       then copy_samples (channelData b ! c) st n 0 (?segs' ! c) else ?segs' ! c)"
      using "1.IH" [OF True] "1.prems" by simp
    show ?thesis
      unfolding step IH using True "1.prems"
      by (cases "c = ch") (auto simp: nth_list_update)
  qed
qed

lemma createBuffer_ok:
  assumes "0 < n" and "1 \<le> len" and "lo \<le> rate" and "rate \<le> hi"
  shows "createBuffer lo hi n len rate =
           Inr \<lparr>sampleRate = rate, duration = double (real_of_int len / rate),
                 channelData = replicate n (replicate (nat len) (Sample 0))\<rparr>"
  using assms by (simp add: createBuffer_def)

lemma createBuffer_empty: "len \<le> 0 \<Longrightarrow> createBuffer lo hi n len rate = Inl NotSupportedError"
  by (simp add: createBuffer_def)

lemma segmentBuffer_empty:
  assumes "\<lfloor>double (double (e - s) * sampleRate b)\<rfloor> \<le> 0"
  shows "segmentBuffer lo hi b s e = Inl NotSupportedError"
  using assms by (simp add: segmentBuffer_def Let_def createBuffer_empty)

lemma segmentBuffer_ok:
  assumes "0 < numberOfChannels b" and "1 \<le> \<lfloor>double (double (e - s) * sampleRate b)\<rfloor>"
    and "lo \<le> sampleRate b" and "sampleRate b \<le> hi"
  shows "\<exists>seg. segmentBuffer lo hi b s e = Inr seg \<and>
           length (channelData seg) = numberOfChannels b \<and>
           (\<forall>c < numberOfChannels b.
              length (channelData seg ! c) = nat \<lfloor>double (double (e - s) * sampleRate b)\<rfloor> \<and>
              (\<forall>i < nat \<lfloor>double (double (e - s) * sampleRate b)\<rfloor>.
                 channelData seg ! c ! i =
                   (if \<lfloor>double (s * sampleRate b)\<rfloor> + int i < int (length (channelData b ! c))
                    then read_sample (channelData b ! c) (\<lfloor>double (s * sampleRate b)\<rfloor> + int i)
                    else Sample 0)))"
proof -
  let ?L = "\<lfloor>double (double (e - s) * sampleRate b)\<rfloor>"
  let ?S = "\<lfloor>double (s * sampleRate b)\<rfloor>"
  let ?fresh = "\<lparr>sampleRate = sampleRate b, duration = double (real_of_int ?L / sampleRate b),
                  channelData = replicate (numberOfChannels b) (replicate (nat ?L) (Sample 0))\<rparr>"
  let ?seg = "?fresh\<lparr>channelData := copy_channels b ?S ?L 0 (channelData ?fresh)\<rparr>"
  have seg: "segmentBuffer lo hi b s e = Inr ?seg"
    by (simp add: segmentBuffer_def Let_def createBuffer_ok [OF assms])
  have len: "length (channelData ?seg) = numberOfChannels b" by simp
  have ch: "length (channelData ?seg ! c) = nat ?L \<and>
        (\<forall>i < nat ?L. channelData ?seg ! c ! i =
            (if ?S + int i < int (length (channelData b ! c))
             then read_sample (channelData b ! c) (?S + int i) else Sample 0))"
    if c: "c < numberOfChannels b" for c
  proof (intro conjI allI impI)
    show "length (channelData ?seg ! c) = nat ?L"
      using c by (simp add: nth_copy_channels)
  next
    fix i assume i: "i < nat ?L"
    then have "int i < ?L" by linarith
    with c i show "channelData ?seg ! c ! i =
            (if ?S + int i < int (length (channelData b ! c))
             then read_sample (channelData b ! c) (?S + int i) else Sample 0)"
      by (simp add: nth_copy_channels nth_copy_samples)
  qed
  from seg len ch show ?thesis by blast
qed

lemma playResolved_valid:
  assumes "0 \<le> s" and "s < e" and "e \<le> duration b" and "duration b \<le> 2 ^ 49"
  shows "playResolved b (Some s) (Some e) p = playSegmentWithMode b s e p"
proof -
  from assms have "0 \<le> duration b" by linarith
  from within_tolerance [OF this assms(4)] assms(3)
  have "\<not> e > double (duration b + tolerance)" by linarith
  with assms show ?thesis by (auto simp: playResolved_def Let_def min_def)
qed

lemma played_playSegmentWithMode:
  "segmentBuffer (minSampleRate p) (maxSampleRate p) b s e = Inr seg \<Longrightarrow>
   played (playSegmentWithMode b s e p) = Some seg"
  "segmentBuffer (minSampleRate p) (maxSampleRate p) b s e = Inl err \<Longrightarrow>
   playSegmentWithMode b s e p = Inl err"
  by (simp_all add: playSegmentWithMode_def played_def playingBuffer_def)

lemma sampleTime_values:
  "sampleTime 3 = 5019522196927769 / 73786976294838206464"
  "sampleTime 6 = 5019522196927769 / 36893488147419103232"
  "sampleTime 8 = 6692696262570359 / 36893488147419103232"
  by (simp_all add: sampleTime_def double_eval)

lemma cd_rounding:
  "double (sampleTime 6 - sampleTime 3) = sampleTime 3"
  "double (sampleTime 3 * 44100) = 3"
  "double (1 / 14700) = sampleTime 3"
  unfolding sampleTime_values tolerance_value by (simp_all add: double_eval sampleTime_values)


lemmas buffer_eval = segmentBuffer_def createBuffer_def numberOfChannels_def
  copy_samples.simps copy_channels.simps read_sample_def eval_nat_numeral

text \<open>
  Claim C7, as stated, fails. On eight samples at 44100 Hz, with the window from the
  double nearest to 3/44100 to the double nearest to 6/44100, the code plays three
  samples starting at index 3 (the samples 4, 5, 6), where \<open>\<lfloor>(e - s) * R\<rfloor>\<close> and
  \<open>\<lfloor>s * R\<rfloor>\<close> are both 2: the products are rounded before \<^verbatim>\<open>Math.floor\<close>. And on four
  samples at 8192 Hz, with the window from 0 to 1/16384, \<open>\<lfloor>(e - s) * R\<rfloor>\<close> is 0,
  \<^verbatim>\<open>createBuffer\<close> throws and no segment is played.
\<close>

theorem C7_counterexample:
  "0 \<le> sampleTime 3 \<and> sampleTime 3 < sampleTime 6 \<and> sampleTime 6 \<le> duration cdBuffer \<and>
   played (playResolved cdBuffer (Some (sampleTime 3)) (Some (sampleTime 6)) (newPlayer Running))
     = Some \<lparr>sampleRate = 44100, duration = sampleTime 3,
              channelData = [[Sample 4, Sample 5, Sample 6]]\<rparr> \<and>
   \<lfloor>(sampleTime 6 - sampleTime 3) * sampleRate cdBuffer\<rfloor> = 2 \<and>
   \<lfloor>sampleTime 3 * sampleRate cdBuffer\<rfloor> = 2 \<and>
   (0::real) < 1 / 16384 \<and> 1 / 16384 \<le> duration demoBuffer \<and>
   \<lfloor>(1 / 16384 - 0) * sampleRate demoBuffer\<rfloor> = 0 \<and>
   playResolved demoBuffer (Some 0) (Some (1 / 16384)) (newPlayer Running) = Inl NotSupportedError"
proof -
  have valid: "0 \<le> sampleTime 3 \<and> sampleTime 3 < sampleTime 6 \<and> sampleTime 6 \<le> duration cdBuffer"
    by (simp add: cdBuffer_def sampleTime_values)
  have d: "duration cdBuffer \<le> 2 ^ 49" by (simp add: cdBuffer_def sampleTime_values)
  from valid d have r: "playResolved cdBuffer (Some (sampleTime 3)) (Some (sampleTime 6)) (newPlayer Running)
      = playSegmentWithMode cdBuffer (sampleTime 3) (sampleTime 6) (newPlayer Running)"
    by (simp add: playResolved_valid)
  have seg: "segmentBuffer 3000 768000 cdBuffer (sampleTime 3) (sampleTime 6)
      = Inr \<lparr>sampleRate = 44100, duration = sampleTime 3,
              channelData = [[Sample 4, Sample 5, Sample 6]]\<rparr>"
    by (simp add: segmentBuffer_def createBuffer_def numberOfChannels_def cdBuffer_def cd_rounding
        Let_def copy_samples.simps copy_channels.simps read_sample_def eval_nat_numeral)
  have 1: "played (playResolved cdBuffer (Some (sampleTime 3)) (Some (sampleTime 6)) (newPlayer Running))
     = Some \<lparr>sampleRate = 44100, duration = sampleTime 3,
              channelData = [[Sample 4, Sample 5, Sample 6]]\<rparr>"
    unfolding r by (rule played_playSegmentWithMode) (simp add: newPlayer_def seg)
  have 2: "\<lfloor>(sampleTime 6 - sampleTime 3) * sampleRate cdBuffer\<rfloor> = 2 \<and>
           \<lfloor>sampleTime 3 * sampleRate cdBuffer\<rfloor> = 2"
    by (simp add: cdBuffer_def sampleTime_values)
  have 3: "(0::real) < 1 / 16384 \<and> 1 / 16384 \<le> duration demoBuffer \<and>
           \<lfloor>(1 / 16384 - 0) * sampleRate demoBuffer\<rfloor> = 0"
    by (simp add: demoBuffer_def)
  have 4: "playResolved demoBuffer (Some 0) (Some (1 / 16384)) (newPlayer Running) = Inl NotSupportedError"
    by (simp add: playResolved_def playSegmentWithMode_def segmentBuffer_def createBuffer_def
        demoBuffer_def tolerance_value newPlayer_def Let_def double_eval)
  from valid 1 2 3 4 show ?thesis by simp
qed

text \<open>
  Claim C7, amended. Take a buffer with at least one channel, a sample rate \<open>R > 0\<close>
  that the platform supports and a duration of at most \<open>2 ^ 49\<close> seconds, and a window
  \<open>0 \<le> s < e \<le> duration\<close>. Let \<open>L = \<lfloor>double (double (e - s) * R)\<rfloor>\<close> and
  \<open>S = \<lfloor>double (s * R)\<rfloor>\<close>, the length and the start as the code computes them, the
  difference and the products rounded to doubles. When \<open>L \<ge> 1\<close>, \<^verbatim>\<open>playSegment\<close> starts a
  source whose buffer has as many channels as the original, each of \<open>L\<close> samples; sample
  \<open>i\<close> of a channel is the original's sample \<open>S + i\<close> of that channel when that index is
  inside the original, and 0 otherwise. When \<open>L \<le> 0\<close>, \<^verbatim>\<open>playSegment\<close> throws
  \<^verbatim>\<open>NotSupportedError\<close>.
\<close>

theorem C7_segment_slicing:
  assumes "0 \<le> s" and "s < e" and "e \<le> duration b" and "duration b \<le> 2 ^ 49"
    and "0 < sampleRate b" and "minSampleRate p \<le> sampleRate b" and "sampleRate b \<le> maxSampleRate p"
    and "0 < numberOfChannels b"
  shows "(1 \<le> \<lfloor>double (double (e - s) * sampleRate b)\<rfloor> \<longrightarrow>
            (\<exists>seg. played (playResolved b (Some s) (Some e) p) = Some seg \<and>
               numberOfChannels seg = numberOfChannels b \<and>
               (\<forall>c < numberOfChannels b.
                  int (length (channelData seg ! c)) = \<lfloor>double (double (e - s) * sampleRate b)\<rfloor> \<and>
                  (\<forall>i < length (channelData seg ! c).
                     channelData seg ! c ! i =
                       (if \<lfloor>double (s * sampleRate b)\<rfloor> + int i < int (length (channelData b ! c))
                        then channelData b ! c ! nat (\<lfloor>double (s * sampleRate b)\<rfloor> + int i)
                        else Sample 0))))) \<and>
         (\<lfloor>double (double (e - s) * sampleRate b)\<rfloor> \<le> 0 \<longrightarrow>
            playResolved b (Some s) (Some e) p = Inl NotSupportedError)"
proof (intro conjI impI)
  let ?L = "\<lfloor>double (double (e - s) * sampleRate b)\<rfloor>"
  let ?S = "\<lfloor>double (s * sampleRate b)\<rfloor>"
  have r: "playResolved b (Some s) (Some e) p = playSegmentWithMode b s e p"
    using assms(1-4) by (rule playResolved_valid)
  {
    assume L: "1 \<le> ?L"
    from segmentBuffer_ok [OF assms(8) L assms(6,7)]
    obtain seg where seg: "segmentBuffer (minSampleRate p) (maxSampleRate p) b s e = Inr seg"
      and n: "length (channelData seg) = numberOfChannels b"
      and ch: "\<forall>c < numberOfChannels b.
              length (channelData seg ! c) = nat ?L \<and>
              (\<forall>i < nat ?L. channelData seg ! c ! i =
                   (if ?S + int i < int (length (channelData b ! c))
                    then read_sample (channelData b ! c) (?S + int i) else Sample 0))"
      by blast
    have "0 \<le> s * sampleRate b" using assms(1,5) by simp
    then have S: "0 \<le> ?S" by (rule double_int_floor_nonneg)
    have pl: "played (playResolved b (Some s) (Some e) p) = Some seg"
      unfolding r using seg by (rule played_playSegmentWithMode)
    have "int (length (channelData seg ! c)) = ?L \<and>
          (\<forall>i < length (channelData seg ! c). channelData seg ! c ! i =
             (if ?S + int i < int (length (channelData b ! c))
              then channelData b ! c ! nat (?S + int i) else Sample 0))"
      if c: "c < numberOfChannels b" for c
      using ch c L S by (auto simp: read_sample_def)
    with pl n show "\<exists>seg. played (playResolved b (Some s) (Some e) p) = Some seg \<and>
               numberOfChannels seg = numberOfChannels b \<and>
               (\<forall>c < numberOfChannels b.
                  int (length (channelData seg ! c)) = ?L \<and>
                  (\<forall>i < length (channelData seg ! c).
                     channelData seg ! c ! i =
                       (if ?S + int i < int (length (channelData b ! c))
                        then channelData b ! c ! nat (?S + int i)
                        else Sample 0)))"
      by (auto simp: numberOfChannels_def [of seg])
  }
  {
    assume "?L \<le> 0"
    then have "segmentBuffer (minSampleRate p) (maxSampleRate p) b s e = Inl NotSupportedError"
      by (rule segmentBuffer_empty)
    then show "playResolved b (Some s) (Some e) p = Inl NotSupportedError"
      unfolding r by (rule played_playSegmentWithMode)
  }
qed

theorem C7_segment_slicing_witness:
  "(0::real) \<le> 1 / 8192 \<and> (1 / 8192 :: real) < 3 / 8192 \<and> 3 / 8192 \<le> duration demoBuffer \<and>
   duration demoBuffer \<le> 2 ^ 49 \<and> 0 < sampleRate demoBuffer \<and>
   minSampleRate (newPlayer Running) \<le> sampleRate demoBuffer \<and>
   sampleRate demoBuffer \<le> maxSampleRate (newPlayer Running) \<and>
   0 < numberOfChannels demoBuffer \<and>
   1 \<le> \<lfloor>double (double (3 / 8192 - 1 / 8192) * sampleRate demoBuffer)\<rfloor> \<and>
   (\<exists>seg. played (playResolved demoBuffer (Some (1 / 8192)) (Some (3 / 8192)) (newPlayer Running))
             = Some seg \<and>
      numberOfChannels seg = 1 \<and> int (length (channelData seg ! 0)) = 2 \<and>
      channelData seg ! 0 ! 0 = Sample 2 \<and> channelData seg ! 0 ! 1 = Sample 3) \<and>
   (0::real) < 1 / 16384 \<and> 1 / 16384 \<le> duration demoBuffer \<and>
   \<lfloor>double (double (1 / 16384 - 0) * sampleRate demoBuffer)\<rfloor> \<le> 0 \<and>
   playResolved demoBuffer (Some 0) (Some (1 / 16384)) (newPlayer Running) = Inl NotSupportedError"
proof -
  have a: "(0::real) \<le> 1 / 8192" and b: "(1 / 8192 :: real) < 3 / 8192" by simp_all
  have c: "3 / 8192 \<le> duration demoBuffer" and d: "duration demoBuffer \<le> 2 ^ 49"
    and r: "0 < sampleRate demoBuffer"
    and lo: "minSampleRate (newPlayer Running) \<le> sampleRate demoBuffer"
    and hi: "sampleRate demoBuffer \<le> maxSampleRate (newPlayer Running)"
    by (simp_all add: demoBuffer_def newPlayer_def)
  have n: "0 < numberOfChannels demoBuffer" by (simp add: numberOfChannels_def demoBuffer_def)
  have L: "\<lfloor>double (double (3 / 8192 - 1 / 8192) * sampleRate demoBuffer)\<rfloor> = 2"
    and S: "\<lfloor>double (1 / 8192 * sampleRate demoBuffer)\<rfloor> = 1"
    by (simp_all add: demoBuffer_def double_eval)
  have L1: "1 \<le> \<lfloor>double (double (3 / 8192 - 1 / 8192) * sampleRate demoBuffer)\<rfloor>"
    unfolding L by simp
  from C7_segment_slicing [OF a b c d r lo hi n, THEN conjunct1, THEN mp, OF L1]
  obtain seg where seg:
    "played (playResolved demoBuffer (Some (1 / 8192)) (Some (3 / 8192)) (newPlayer Running)) = Some seg"
    "numberOfChannels seg = numberOfChannels demoBuffer"
    "\<forall>c < numberOfChannels demoBuffer.
        int (length (channelData seg ! c))
          = \<lfloor>double (double (3 / 8192 - 1 / 8192) * sampleRate demoBuffer)\<rfloor> \<and>
        (\<forall>i < length (channelData seg ! c).
           channelData seg ! c ! i =
             (if \<lfloor>double (1 / 8192 * sampleRate demoBuffer)\<rfloor> + int i
                   < int (length (channelData demoBuffer ! c))
              then channelData demoBuffer ! c ! nat (\<lfloor>double (1 / 8192 * sampleRate demoBuffer)\<rfloor> + int i)
              else Sample 0))"
    by blast
  have n1: "numberOfChannels demoBuffer = 1" by (simp add: numberOfChannels_def demoBuffer_def)
  from seg(3) have "int (length (channelData seg ! 0)) = 2 \<and>
        (\<forall>i < length (channelData seg ! 0). channelData seg ! 0 ! i =
           (if 1 + int i < int (length (channelData demoBuffer ! 0))
            then channelData demoBuffer ! 0 ! nat (1 + int i) else Sample 0))"
    unfolding L S n1 by blast
  then have len: "int (length (channelData seg ! 0)) = 2"
    and nth: "\<forall>i < length (channelData seg ! 0). channelData seg ! 0 ! i =
       (if 1 + int i < int (length (channelData demoBuffer ! 0))
        then channelData demoBuffer ! 0 ! nat (1 + int i) else Sample 0)"
    by blast+
  from len have l2: "length (channelData seg ! 0) = 2" by simp
  from nth l2 have s01: "channelData seg ! 0 ! 0 = Sample 2" "channelData seg ! 0 ! 1 = Sample 3"
    by (simp_all add: demoBuffer_def)
  have a': "(0::real) \<le> 0" and b': "(0::real) < 1 / 16384" by simp_all
  have c': "1 / 16384 \<le> duration demoBuffer" by (simp add: demoBuffer_def)
  have L0: "\<lfloor>double (double (1 / 16384 - 0) * sampleRate demoBuffer)\<rfloor> \<le> 0"
    by (simp add: demoBuffer_def double_eval)
  from C7_segment_slicing [OF a' b' c' d r lo hi n, THEN conjunct2, THEN mp, OF L0]
  have thrown: "playResolved demoBuffer (Some 0) (Some (1 / 16384)) (newPlayer Running)
                  = Inl NotSupportedError" .
  have ex: "\<exists>seg. played (playResolved demoBuffer (Some (1 / 8192)) (Some (3 / 8192)) (newPlayer Running))
             = Some seg \<and>
      numberOfChannels seg = 1 \<and> int (length (channelData seg ! 0)) = 2 \<and>
      channelData seg ! 0 ! 0 = Sample 2 \<and> channelData seg ! 0 ! 1 = Sample 3"
    using seg(1,2) n1 len s01 by auto
  from a b c d r lo hi n L1 ex b' c' L0 thrown show ?thesis by blast
qed

section \<open>Validation of the window\<close>

text \<open>
  When the end of the requested window is not 0, the window that is validated is the
  requested one, and every window the validation rejects is played as the whole buffer,
  looping.
\<close>

lemma fallback_unless_zero_end:
  assumes "e \<noteq> 0"
    and "s \<ge> e \<or> s < 0 \<or> s \<ge> duration b \<or> e > double (duration b + tolerance)"
  shows "playResolved b (Some s) (Some e) p = Inr (playSimpleLoop b p)"
  using assms by (auto simp: playResolved_def Let_def)

lemma playSimpleLoop_whole_buffer:
  "playingBuffer (playSimpleLoop b p) = Some b \<and>
   loop (sources (playSimpleLoop b p) ! length (sources p))"
  by (simp add: playSimpleLoop_def playingBuffer_def)

text \<open>
  An end of 0 is replaced by the duration (\<^verbatim>\<open>endTime || buffer.duration\<close>): the window
  \<open>[s, 0]\<close> with \<open>0 < s < duration\<close> is played as the segment from \<open>s\<close> to the end of
  the buffer, in the current loop mode.
\<close>

lemma zero_end_plays_tail:
  assumes "0 < s" and "s < duration b" and "duration b \<le> 2 ^ 49"
  shows "playResolved b (Some s) (Some 0) p = playSegmentWithMode b s (duration b) p"
proof -
  from assms have "0 \<le> duration b" by linarith
  from within_tolerance [OF this assms(3)]
  have "\<not> duration b > double (duration b + tolerance)" by linarith
  with assms show ?thesis by (auto simp: playResolved_def Let_def)
qed

lemma tail_of_threeSamples:
  "segmentBuffer 3000 768000 threeSamples (1 / 4096) (3 / 8192)
     = Inr \<lparr>sampleRate = 8192, duration = 1 / 8192, channelData = [[Sample 7]]\<rparr>"
  by (simp add: threeSamples_def buffer_eval double_eval Let_def)

lemma tail_of_demoBuffer:
  "segmentBuffer 3000 768000 demoBuffer (1 / 4096) (1 / 2048)
     = Inr \<lparr>sampleRate = 8192, duration = 1 / 4096, channelData = [[Sample 3, Sample 4]]\<rparr>"
  by (simp add: demoBuffer_def buffer_eval double_eval Let_def)

text \<open>
  Claim C6 at \<^verbatim>\<open>playSegment(buffer, 1/4096, 0)\<close> on a buffer of three samples 5, 6, 7 at
  8192 Hz (the start is the time of sample 2): the requested window has
  \<open>start \<ge> end\<close>, and what is played is the one-sample segment \<open>[7]\<close>, not the whole
  buffer.
\<close>

theorem C6_inverted_window_zero_end:
  "(1 / 4096 :: real) \<ge> 0 \<and>
   playingBuffer (player (run (newEngine Running) (playAwaited threeSamples (Some (1 / 4096)) (Some 0))))
     = Some \<lparr>sampleRate = 8192, duration = 1 / 8192, channelData = [[Sample 7]]\<rparr> \<and>
   playingBuffer (playSimpleLoop threeSamples (newPlayer Running)) = Some threeSamples"
proof -
  have d: "(0::real) < 1 / 4096" "1 / 4096 < duration threeSamples" "duration threeSamples \<le> 2 ^ 49"
    "duration threeSamples = 3 / 8192"
    by (simp_all add: threeSamples_def)
  show ?thesis
    by (simp add: playAwaited_def playingBuffer_def newEngine_def newPlayer_def callPlaySegment_def
        callStop_def stopNow_def finishPlay_def Let_def zero_end_plays_tail d
        playSegmentWithMode_def tail_of_threeSamples playSimpleLoop_def)
qed

text \<open>
  Claim C8 at \<^verbatim>\<open>playSegment(buffer, 1/4096, 0)\<close> in mode \<^verbatim>\<open>'once'\<close> on the buffer of four
  samples 1, 2, 3, 4 at 8192 Hz (duration 1/2048): the end 0 is replaced by the duration,
  and the second half of the buffer is played, once, instead of the whole buffer looping.
\<close>

theorem C8_explicit_zero_end:
  "(0::real) < 1 / 4096 \<and> 1 / 4096 < duration demoBuffer \<and>
   playingBuffer (player (run (newEngine Running)
       (CallSetLoopMode Once None # playAwaited demoBuffer (Some (1 / 4096)) (Some 0))))
     = Some \<lparr>sampleRate = 8192, duration = 1 / 4096, channelData = [[Sample 3, Sample 4]]\<rparr> \<and>
   \<not> loop (sources (player (run (newEngine Running)
       (CallSetLoopMode Once None # playAwaited demoBuffer (Some (1 / 4096)) (Some 0)))) ! 0) \<and>
   playingBuffer (playSimpleLoop demoBuffer (newPlayer Running)) = Some demoBuffer"
proof -
  have d: "(0::real) < 1 / 4096" "1 / 4096 < duration demoBuffer" "duration demoBuffer \<le> 2 ^ 49"
    "duration demoBuffer = 1 / 2048"
    by (simp_all add: demoBuffer_def)
  show ?thesis
    by (simp add: playAwaited_def playingBuffer_def newEngine_def newPlayer_def callPlaySegment_def
        callStop_def stopNow_def finishPlay_def setLoopMode_def Let_def zero_end_plays_tail d
        playSegmentWithMode_def tail_of_demoBuffer playSimpleLoop_def)
qed

section \<open>Sources that sound\<close>

text \<open>What the last part of \<^verbatim>\<open>playSegment\<close> does with the windows of the examples.\<close>

lemmas engine_run = newEngine_def newPlayer_def callPlaySegment_def callStop_def stopNow_def
  stopSource_def disconnectGain_def setLoopMode_def finishPlay_def sourceEnded_def
  endedListenerBody_def Let_def

lemma demoBuffer_segments:
  "segmentBuffer 3000 768000 demoBuffer 0 (1 / 2048) = Inr demoBuffer"
  "segmentBuffer 3000 768000 demoBuffer (1 / 8192) (3 / 8192)
     = Inr \<lparr>sampleRate = 8192, duration = 1 / 4096, channelData = [[Sample 2, Sample 3]]\<rparr>"
  by (simp_all add: demoBuffer_def buffer_eval double_eval Let_def)

lemma demoBuffer_windows:
  "playResolved demoBuffer None None p = playSegmentWithMode demoBuffer 0 (1 / 2048) p"
  "playResolved demoBuffer (Some (1 / 8192)) (Some (3 / 8192)) p =
     playSegmentWithMode demoBuffer (1 / 8192) (3 / 8192) p"
proof -
  have d: "duration demoBuffer = 1 / 2048" by (simp add: demoBuffer_def)
  have "(0::real) \<le> 1 / 2048" "(1 / 2048 :: real) \<le> 2 ^ 49" by simp_all
  from within_tolerance [OF this]
  show "playResolved demoBuffer None None p = playSegmentWithMode demoBuffer 0 (1 / 2048) p"
    by (simp add: playResolved_def d Let_def)
  show "playResolved demoBuffer (Some (1 / 8192)) (Some (3 / 8192)) p =
     playSegmentWithMode demoBuffer (1 / 8192) (3 / 8192) p"
    by (rule playResolved_valid) (simp_all add: demoBuffer_def)
qed

lemma demoBuffer_played:
  assumes "minSampleRate p = 3000" and "maxSampleRate p = 768000"
  shows "playResolved demoBuffer None None p =
     Inr (p\<lparr>sources := sources p @
              [\<lparr>buffer = demoBuffer,
                loop = (loopMode p = Loop),
                endedListener = (loopMode p = Once \<and> onSegmentEnd p \<noteq> None),
                started = True, stopped = False, connected = True, ended = False\<rparr>],
            gains := gains p @ [True],
            currentSource := Some (length (sources p)),
            currentGain := Some (length (gains p)),
            currentBuffer := Some demoBuffer,
            playing := True,
            stopRequested := False\<rparr>)"
    and "playResolved demoBuffer (Some (1 / 8192)) (Some (3 / 8192)) p =
     Inr (p\<lparr>sources := sources p @
              [\<lparr>buffer = \<lparr>sampleRate = 8192, duration = 1 / 4096,
                          channelData = [[Sample 2, Sample 3]]\<rparr>,
                loop = (loopMode p = Loop),
                endedListener = (loopMode p = Once \<and> onSegmentEnd p \<noteq> None),
                started = True, stopped = False, connected = True, ended = False\<rparr>],
            gains := gains p @ [True],
            currentSource := Some (length (sources p)),
            currentGain := Some (length (gains p)),
            currentBuffer := Some demoBuffer,
            playing := True,
            stopRequested := False\<rparr>)"
  by (simp_all add: demoBuffer_windows playSegmentWithMode_def assms demoBuffer_segments)

lemma othersStopped_iff:
  "othersStopped p \<longleftrightarrow>
     (\<forall>h < length (sources p). currentSource p \<noteq> Some h \<longrightarrow>
         stopped (sources p ! h) \<and> \<not> connected (sources p ! h))"
  by (auto simp: othersStopped_def list_all_iff)

lemma list_ex_filter: "list_ex P xs \<longleftrightarrow> filter P xs \<noteq> []"
  by (induction xs) auto

lemma stopNow_fields:
  "currentSource (stopNow p) = None"
  "length (sources (stopNow p)) = length (sources p)"
  "contextState (stopNow p) = contextState p"
  by (auto simp: stopNow_def Let_def stopSource_def split: option.splits)

lemma stopNow_sources:
  "h < length (sources p) \<Longrightarrow>
   stopped (sources (stopNow p) ! h) = (stopped (sources p ! h) \<or> currentSource p = Some h) \<and>
   connected (sources (stopNow p) ! h) = (connected (sources p ! h) \<and> currentSource p \<noteq> Some h)"
  by (auto simp: stopNow_def Let_def stopSource_def nth_list_update split: option.splits)

lemma stopNow_othersStopped:
  "othersStopped p \<Longrightarrow> othersStopped (stopNow p)"
  by (auto simp: othersStopped_iff stopNow_fields stopNow_sources)

lemma stopNow_context: "stopNow (p\<lparr>contextState := c\<rparr>) = (stopNow p)\<lparr>contextState := c\<rparr>"
  by (auto simp: stopNow_def Let_def split: option.splits)

lemma stopNow_idem: "stopNow (stopNow p) = stopNow p"
  by (auto simp: stopNow_def Let_def split: option.splits)

lemma playResolved_fields:
  assumes "playResolved b s t p = Inr p'"
  shows "currentSource p' = Some (length (sources p))"
    and "length (sources p') = Suc (length (sources p))"
    and "h < length (sources p) \<Longrightarrow> sources p' ! h = sources p ! h"
    and "invocations p' = invocations p"
  using assms
  by (auto simp: playResolved_def Let_def playSimpleLoop_def playSegmentWithMode_def nth_append
      split: if_splits sum.splits)

lemma playResolved_othersStopped:
  assumes "othersStopped p" and "currentSource p = None" and "playResolved b s t p = Inr p'"
  shows "othersStopped p'"
  using assms(1,2)
  by (auto simp: othersStopped_iff playResolved_fields [OF assms(3)] less_Suc_eq)

lemma finishPlay_inv:
  assumes "othersStopped (player e)" and "currentSource (player e) = None"
    and "filter playPending (tasks e) = []"
  shows "engine_inv (finishPlay b s t e)"
proof (cases "playResolved b s t (player e)")
  case (Inl err)
  with assms show ?thesis by (simp add: finishPlay_def engine_inv_def list_ex_filter)
next
  case (Inr p')
  from playResolved_othersStopped [OF assms(1,2) Inr] playResolved_fields [OF Inr] Inr assms(3)
  show ?thesis by (simp add: finishPlay_def engine_inv_def list_ex_filter)
qed

lemma sourceEnded_fields:
  "currentSource (sourceEnded h p) = currentSource p"
  "length (sources (sourceEnded h p)) = length (sources p)"
  "k < length (sources p) \<Longrightarrow> stopped (sources (sourceEnded h p) ! k) = stopped (sources p ! k)"
  "k < length (sources p) \<Longrightarrow> connected (sources (sourceEnded h p) ! k) = connected (sources p ! k)"
  by (auto simp: sourceEnded_def Let_def endedListenerBody_def nth_list_update split: option.splits)

lemma sourceEnded_othersStopped:
  "othersStopped p \<Longrightarrow> othersStopped (sourceEnded h p)"
  by (simp add: othersStopped_iff sourceEnded_fields)

lemma filter_remove_nth:
  assumes "i < length ts" and "length (filter P ts) \<le> 1"
  shows "filter P (take i ts @ drop (Suc i) ts) = (if P (ts ! i) then [] else filter P ts)"
proof -
  have ts: "ts = take i ts @ ts ! i # drop (Suc i) ts"
    using assms(1) by (simp add: id_take_nth_drop)
  have f: "filter P ts = filter P (take i ts) @ (if P (ts ! i) then [ts ! i] else []) @ filter P (drop (Suc i) ts)"
    by (subst ts) simp
  show ?thesis
  proof (cases "P (ts ! i)")
    case True
    with f assms(2) have "filter P (take i ts) = [] \<and> filter P (drop (Suc i) ts) = []"
      by (cases "filter P (take i ts)"; cases "filter P (drop (Suc i) ts)") auto
    with True show ?thesis by simp
  next
    case False
    with f show ?thesis by simp
  qed
qed

lemma callStop_inv: "engine_inv e \<Longrightarrow> engine_inv (callStop e)"
  by (auto simp: engine_inv_def callStop_def Let_def stopNow_fields stopNow_othersStopped list_ex_filter)

lemma callPlaySegment_inv:
  assumes "engine_inv e" and "\<not> list_ex playPending (tasks e)"
  shows "engine_inv (callPlaySegment (Some b) s t e)"
  using assms
  by (auto simp: engine_inv_def callPlaySegment_def callStop_def Let_def stopNow_fields
      stopNow_othersStopped list_ex_filter)

lemma continue_inv:
  assumes "engine_inv e" and "i < length (tasks e)"
  shows "engine_inv (step e (Continue i))"
proof -
  let ?rest = "take i (tasks e) @ drop (Suc i) (tasks e)"
  let ?t = "tasks e ! i"
  from assms have one: "length (filter playPending (tasks e)) \<le> 1"
    by (simp add: engine_inv_def)
  have rest: "filter playPending ?rest = (if playPending ?t then [] else filter playPending (tasks e))"
    by (rule filter_remove_nth [OF assms(2) one])
  have mem: "?t \<in> set (tasks e)" using assms(2) by simp
  have none: "playPending ?t \<Longrightarrow> currentSource (player e) = None"
    using assms(1) mem by (auto simp: engine_inv_def list_ex_iff)
  show ?thesis
  proof (cases ?t)
    case (PlayAfterSettle b s t)
    with none have cur: "currentSource (player e) = None" by simp
    from PlayAfterSettle rest have r: "filter playPending ?rest = []" by simp
    have os: "othersStopped ((player e)\<lparr>stopRequested := False\<rparr>)"
      using assms(1) by (simp add: engine_inv_def othersStopped_iff)
    let ?e1 = "e\<lparr>tasks := ?rest, player := (player e)\<lparr>stopRequested := False\<rparr>\<rparr>"
    have fin: "engine_inv (finishPlay b s t ?e1)"
    proof (rule finishPlay_inv)
      show "othersStopped (player ?e1)" using os by simp
      show "currentSource (player ?e1) = None" using cur by simp
      show "filter playPending (tasks ?e1) = []" using r by simp
    qed
    show ?thesis
    proof (cases "contextState (player e) = Suspended")
      case True
      with assms PlayAfterSettle r cur os show ?thesis
        by (simp add: engine_inv_def Let_def list_ex_filter)
    next
      case False
      with assms(2) PlayAfterSettle fin show ?thesis by (simp add: Let_def)
    qed
  next
    case (PlayAfterResume b s t)
    with none have cur: "currentSource (player e) = None" by simp
    from PlayAfterResume rest have r: "filter playPending ?rest = []" by simp
    have os: "othersStopped ((player e)\<lparr>contextState := Running\<rparr>)"
      using assms(1) by (simp add: engine_inv_def othersStopped_iff)
    let ?e1 = "e\<lparr>tasks := ?rest, player := (player e)\<lparr>contextState := Running\<rparr>\<rparr>"
    have fin: "engine_inv (finishPlay b s t ?e1)"
    proof (rule finishPlay_inv)
      show "othersStopped (player ?e1)" using os by simp
      show "currentSource (player ?e1) = None" using cur by simp
      show "filter playPending (tasks ?e1) = []" using r by simp
    qed
    with assms(2) PlayAfterResume show ?thesis by simp
  next
    case StopAfterSuspend
    with rest have r: "filter playPending ?rest = filter playPending (tasks e)" by simp
    show ?thesis using assms StopAfterSuspend r
      by (auto simp: engine_inv_def list_ex_filter othersStopped_iff)
  next
    case StopAfterPause
    with rest have r: "filter playPending ?rest = filter playPending (tasks e)" by simp
    show ?thesis using assms StopAfterPause r
      by (auto simp: engine_inv_def list_ex_filter othersStopped_iff)
  next
    case StopAfterResume
    with rest have r: "filter playPending ?rest = filter playPending (tasks e)" by simp
    show ?thesis using assms StopAfterResume r
      by (auto simp: engine_inv_def list_ex_filter othersStopped_iff)
  qed
qed

lemma step_inv:
  assumes "engine_inv e" and "awaited e [a]"
  shows "engine_inv (step e a)"
proof (cases a)
  case (CallPlaySegment buf s t)
  show ?thesis
  proof (cases buf)
    case None
    with CallPlaySegment assms show ?thesis by (simp add: callPlaySegment_def)
  next
    case (Some b)
    with CallPlaySegment assms callPlaySegment_inv [of e b s t] show ?thesis by simp
  qed
next
  case CallStop
  with assms show ?thesis by (simp add: callStop_inv)
next
  case (CallSetLoopMode m cb)
  with assms show ?thesis
    by (simp add: engine_inv_def setLoopMode_def othersStopped_iff)
next
  case (Continue i)
  with assms continue_inv [of e i] show ?thesis by (cases "i < length (tasks e)") auto
next
  case (SourceEnded h)
  with assms show ?thesis
    by (simp add: engine_inv_def sourceEnded_fields sourceEnded_othersStopped)
qed

lemma run_inv:
  "engine_inv e \<Longrightarrow> awaited e acts \<Longrightarrow> engine_inv (run e acts)"
proof (induction acts arbitrary: e)
  case Nil
  then show ?case by simp
next
  case (Cons a acts)
  from Cons.prems have "awaited e [a]" and rest: "awaited (step e a) acts" by simp_all
  with Cons.prems(1) have "engine_inv (step e a)" by (simp add: step_inv)
  with rest show ?case by (simp add: Cons.IH)
qed

lemma awaited_take: "awaited e acts \<Longrightarrow> awaited e (take k acts)"
proof (induction acts arbitrary: e k)
  case Nil
  then show ?case by simp
next
  case (Cons a acts)
  then show ?case by (cases k) auto
qed

lemma newEngine_inv: "engine_inv (newEngine c)"
  by (simp add: engine_inv_def newEngine_def newPlayer_def othersStopped_def)

lemma filter_at_most_one:
  assumes "\<forall>h < n. P h \<longrightarrow> h = c"
  shows "length (filter P [0 ..< n]) \<le> 1"
proof -
  let ?xs = "filter P [0 ..< n]"
  have "set ?xs \<subseteq> {c}" using assms by auto
  then have "card (set ?xs) \<le> card {c}" by (rule card_mono [OF finite.insertI [OF finite.emptyI]])
  then have c: "card (set ?xs) \<le> 1" by simp
  have "distinct ?xs" by simp
  then have "card (set ?xs) = length ?xs" by (rule distinct_card)
  with c show ?thesis by linarith
qed

lemma inv_sounding:
  assumes "engine_inv e"
  shows "length (sounding (player e)) \<le> 1"
proof (cases "currentSource (player e)")
  case None
  with assms have "\<forall>h < length (sources (player e)).
      (started (sources (player e) ! h) \<and> \<not> stopped (sources (player e) ! h) \<and> \<not> ended (sources (player e) ! h))
        \<longrightarrow> h = 0"
    by (auto simp: engine_inv_def othersStopped_iff)
  then show ?thesis unfolding sounding_def by (rule filter_at_most_one)
next
  case (Some c)
  with assms have "\<forall>h < length (sources (player e)).
      (started (sources (player e) ! h) \<and> \<not> stopped (sources (player e) ! h) \<and> \<not> ended (sources (player e) ! h))
        \<longrightarrow> h = c"
    by (auto simp: engine_inv_def othersStopped_iff)
  then show ?thesis unfolding sounding_def by (rule filter_at_most_one)
qed

lemma stopAwaited_idem:
  assumes "tasks e = []"
  shows "run (run e stopAwaited) stopAwaited = run e stopAwaited"
proof (cases "contextState (player e) = Suspended")
  case True
  with assms show ?thesis
    by (simp add: stopAwaited_def callStop_def Let_def stopNow_fields stopNow_idem)
next
  case False
  with assms show ?thesis
    by (simp add: stopAwaited_def callStop_def Let_def stopNow_fields stopNow_idem stopNow_context)
qed

text \<open>
  When every call of \<^verbatim>\<open>playSegment\<close> is made after the one before has completed, at most
  one source sounds after each step of the schedule, and every other source has been
  stopped and disconnected.
\<close>

lemma awaited_single_source:
  assumes "awaited (newEngine c) acts"
  shows "length (sounding (player (run (newEngine c) (take k acts)))) \<le> 1 \<and>
         othersStopped (player (run (newEngine c) (take k acts)))"
proof -
  from assms have "awaited (newEngine c) (take k acts)" by (rule awaited_take)
  with newEngine_inv have inv: "engine_inv (run (newEngine c) (take k acts))" by (rule run_inv)
  then have "length (sounding (player (run (newEngine c) (take k acts)))) \<le> 1"
    by (rule inv_sounding)
  with inv show ?thesis by (simp add: engine_inv_def)
qed

lemma twoPlays_awaited:
  "awaited (newEngine Running) twoPlays \<and>
   sounding (player (run (newEngine Running) twoPlays)) = [1]"
  by (simp add: twoPlays_def sounding_def upt_rec engine_run demoBuffer_played)

text \<open>
  A second \<^verbatim>\<open>stop()\<close> in a row changes no field of the player, and an awaited
  \<^verbatim>\<open>stop()\<close> after an awaited \<^verbatim>\<open>stop()\<close> leaves the engine as it was.
\<close>

lemma stop_twice:
  "player (callStop (callStop e)) = player (callStop e) \<and>
   (tasks e = [] \<longrightarrow> run (run e stopAwaited) stopAwaited = run e stopAwaited)"
  using stopAwaited_idem [of e]
  by (simp add: callStop_def Let_def stopNow_idem stopNow_fields)

text \<open>
  Claim C1 at two calls of \<^verbatim>\<open>playSegment\<close>, the second made before the timer of the first
  has fired: each continuation creates and starts a source, the second overwrites
  \<^verbatim>\<open>currentSource\<close> without the first having been stopped, and two sources sound. A
  \<^verbatim>\<open>stop()\<close> after that reaches the second source only.
\<close>

theorem C1_overlapping_playSegment:
  "sounding (player (run (newEngine Running) overlappingPlays)) = [0, 1] \<and>
   \<not> othersStopped (player (run (newEngine Running) overlappingPlays)) \<and>
   sounding (player (run (newEngine Running) (overlappingPlays @ stopAwaited))) = [0]"
  by (simp add: overlappingPlays_def stopAwaited_def sounding_def othersStopped_def
      upt_rec engine_run demoBuffer_played)

section \<open>The completion callback\<close>

lemma stopNow_log:
  "invocations (stopNow p) = invocations p"
  "length (sources (stopNow p)) = length (sources p)"
  "h < length (sources p) \<Longrightarrow> ended (sources (stopNow p) ! h) = ended (sources p ! h)"
  "h < length (sources p) \<Longrightarrow> endedListener (sources (stopNow p) ! h) = endedListener (sources p ! h)"
  by (auto simp: stopNow_def Let_def stopSource_def nth_list_update split: option.splits)

lemma stopNow_log_inv: "log_inv p \<Longrightarrow> log_inv (stopNow p)"
  by (auto simp: log_inv_def stopNow_log)

lemma playResolved_log_inv:
  assumes "log_inv p" and "playResolved b s t p = Inr p'"
  shows "log_inv p'"
  using assms(1) by (auto simp: log_inv_def playResolved_fields [OF assms(2)] less_Suc_eq)

lemma finishPlay_log_inv:
  assumes "log_inv (player e)"
  shows "log_inv (player (finishPlay b s t e))"
proof (cases "playResolved b s t (player e)")
  case (Inl err)
  with assms show ?thesis by (simp add: finishPlay_def)
next
  case (Inr p')
  with playResolved_log_inv [OF assms Inr] show ?thesis by (simp add: finishPlay_def)
qed

lemma sourceEnded_log_inv:
  assumes "log_inv p"
  shows "log_inv (sourceEnded h p)"
proof (cases "h < length (sources p) \<and> started (sources p ! h) \<and> \<not> ended (sources p ! h) \<and>
         (stopped (sources p ! h) \<or> \<not> loop (sources p ! h))")
  case False
  with assms show ?thesis by (auto simp: sourceEnded_def)
next
  case True
  have fresh: "h \<notin> ofSource ` set (invocations p)"
    using assms True by (auto simp: log_inv_def)
  show ?thesis
    using assms True fresh
    by (auto simp: log_inv_def sourceEnded_def Let_def endedListenerBody_def nth_list_update
        split: option.splits)
qed

lemma step_log_inv:
  assumes "log_inv (player e)"
  shows "log_inv (player (step e a))"
proof (cases a)
  case (CallPlaySegment buf s t)
  with assms show ?thesis
    by (auto simp: callPlaySegment_def callStop_def Let_def stopNow_log_inv split: option.splits)
next
  case CallStop
  with assms show ?thesis by (auto simp: callStop_def Let_def stopNow_log_inv)
next
  case (CallSetLoopMode m cb)
  with assms show ?thesis by (simp add: log_inv_def setLoopMode_def)
next
  case (Continue i)
  show ?thesis
  proof (cases "i < length (tasks e)")
    case False
    with Continue assms show ?thesis by simp
  next
    case True
    have a: "log_inv ((player e)\<lparr>stopRequested := False\<rparr>)"
      and b: "log_inv ((player e)\<lparr>contextState := c\<rparr>)" for c
      using assms by (simp_all add: log_inv_def)
    show ?thesis
      using Continue True a b assms
      by (cases "tasks e ! i") (auto simp: Let_def intro!: finishPlay_log_inv)
  qed
next
  case (SourceEnded h)
  with assms show ?thesis by (simp add: sourceEnded_log_inv)
qed

lemma run_log_inv: "log_inv (player e) \<Longrightarrow> log_inv (player (run e acts))"
  by (induction acts arbitrary: e) (simp_all add: step_log_inv)

lemma newEngine_log_inv: "log_inv (player (newEngine c))"
  by (simp add: log_inv_def newEngine_def newPlayer_def)

text \<open>
  Claim C9, as stated, fails: in mode \<^verbatim>\<open>'once'\<close> with callback 7 a segment is started and
  \<^verbatim>\<open>stop()\<close> is called. The source is then stopped and the callback has not run; when
  the \<^verbatim>\<open>ended\<close> event of the stopped source is delivered, the listener runs the callback,
  with \<^verbatim>\<open>stopRequested\<close> set.
\<close>

theorem C9_counterexample:
  "stopped (sources (player (run (newEngine Running) stoppedOnce)) ! 0) \<and>
   invocations (player (run (newEngine Running) stoppedOnce)) = [] \<and>
   invocations (player (run (newEngine Running) (stoppedOnce @ [SourceEnded 0]))) =
     [\<lparr>callback = 7, ofSource = 0, playingAtCall = False, stopRequestedAtCall = True\<rparr>]"
  by (simp add: stoppedOnce_def playedOnce_def engine_run demoBuffer_played)

text \<open>
  Claim C9, amended. Over any sequence of calls, continuations and \<^verbatim>\<open>ended\<close> events,
  every invocation of the callback was made with \<^verbatim>\<open>isPlaying\<close> false, by the listener
  of a source whose \<^verbatim>\<open>ended\<close> event has been delivered, and no source has two
  invocations. \<^verbatim>\<open>playSegmentWithMode\<close> attaches the listener exactly when the mode is
  \<^verbatim>\<open>'once'\<close> and a callback is registered, \<^verbatim>\<open>playSimpleLoop\<close> never. When the \<^verbatim>\<open>ended\<close>
  event of a source with the listener is delivered while a callback is registered
  (after the segment has been played through, or after \<^verbatim>\<open>stop()\<close>), \<^verbatim>\<open>isPlaying\<close> is set
  to false and the callback is invoked once; a second delivery changes nothing.
\<close>

theorem C9_completion_callback:
  "(\<forall>v \<in> set (invocations (player (run (newEngine c) acts))).
       \<not> playingAtCall v \<and>
       ended (sources (player (run (newEngine c) acts)) ! ofSource v) \<and>
       endedListener (sources (player (run (newEngine c) acts)) ! ofSource v)) \<and>
   distinct (map ofSource (invocations (player (run (newEngine c) acts)))) \<and>
   (playSegmentWithMode b s t p = Inr p' \<longrightarrow>
      endedListener (sources p' ! length (sources p))
        = (loopMode p = Once \<and> onSegmentEnd p \<noteq> None)) \<and>
   \<not> endedListener (sources (playSimpleLoop b p) ! length (sources p)) \<and>
   (h < length (sources q) \<and> endedListener (sources q ! h) \<and> started (sources q ! h) \<and>
    \<not> ended (sources q ! h) \<and> \<not> loop (sources q ! h) \<and> onSegmentEnd q = Some cb \<longrightarrow>
      invocations (sourceEnded h q) =
        invocations q @ [\<lparr>callback = cb, ofSource = h, playingAtCall = False,
                          stopRequestedAtCall = stopRequested q\<rparr>] \<and>
      \<not> playing (sourceEnded h q) \<and>
      sourceEnded h (sourceEnded h q) = sourceEnded h q)"
proof -
  have "log_inv (player (run (newEngine c) acts))"
    using newEngine_log_inv by (rule run_log_inv)
  then have 1: "(\<forall>v \<in> set (invocations (player (run (newEngine c) acts))).
       \<not> playingAtCall v \<and>
       ended (sources (player (run (newEngine c) acts)) ! ofSource v) \<and>
       endedListener (sources (player (run (newEngine c) acts)) ! ofSource v)) \<and>
     distinct (map ofSource (invocations (player (run (newEngine c) acts))))"
    by (simp add: log_inv_def)
  have 2: "playSegmentWithMode b s t p = Inr p' \<longrightarrow>
      endedListener (sources p' ! length (sources p))
        = (loopMode p = Once \<and> onSegmentEnd p \<noteq> None)"
    by (auto simp: playSegmentWithMode_def split: sum.splits)
  have 3: "\<not> endedListener (sources (playSimpleLoop b p) ! length (sources p))"
    by (simp add: playSimpleLoop_def)
  have 4: "h < length (sources q) \<and> endedListener (sources q ! h) \<and> started (sources q ! h) \<and>
    \<not> ended (sources q ! h) \<and> \<not> loop (sources q ! h) \<and> onSegmentEnd q = Some cb \<longrightarrow>
      invocations (sourceEnded h q) =
        invocations q @ [\<lparr>callback = cb, ofSource = h, playingAtCall = False,
                          stopRequestedAtCall = stopRequested q\<rparr>] \<and>
      \<not> playing (sourceEnded h q) \<and>
      sourceEnded h (sourceEnded h q) = sourceEnded h q"
    by (auto simp: sourceEnded_def Let_def endedListenerBody_def)
  from 1 2 3 4 show ?thesis by blast
qed

theorem C9_completion_callback_witness:
  "list_all (\<lambda>v. \<not> playingAtCall v \<and>
       ended (sources (player (run (newEngine Running) (playedOnce @ [SourceEnded 0]))) ! ofSource v))
     (invocations (player (run (newEngine Running) (playedOnce @ [SourceEnded 0])))) \<and>
   invocations (player (run (newEngine Running) (playedOnce @ [SourceEnded 0]))) \<noteq> [] \<and>
   0 < length (sources (player (run (newEngine Running) playedOnce))) \<and>
   endedListener (sources (player (run (newEngine Running) playedOnce)) ! 0) \<and>
   started (sources (player (run (newEngine Running) playedOnce)) ! 0) \<and>
   \<not> ended (sources (player (run (newEngine Running) playedOnce)) ! 0) \<and>
   \<not> loop (sources (player (run (newEngine Running) playedOnce)) ! 0) \<and>
   \<not> stopped (sources (player (run (newEngine Running) playedOnce)) ! 0) \<and>
   onSegmentEnd (player (run (newEngine Running) playedOnce)) = Some 7 \<and>
   invocations (sourceEnded 0 (player (run (newEngine Running) playedOnce))) =
     [\<lparr>callback = 7, ofSource = 0, playingAtCall = False, stopRequestedAtCall = False\<rparr>] \<and>
   \<not> playing (sourceEnded 0 (player (run (newEngine Running) playedOnce)))"
proof -
  have pre: "0 < length (sources (player (run (newEngine Running) playedOnce))) \<and>
   endedListener (sources (player (run (newEngine Running) playedOnce)) ! 0) \<and>
   started (sources (player (run (newEngine Running) playedOnce)) ! 0) \<and>
   \<not> ended (sources (player (run (newEngine Running) playedOnce)) ! 0) \<and>
   \<not> loop (sources (player (run (newEngine Running) playedOnce)) ! 0) \<and>
   \<not> stopped (sources (player (run (newEngine Running) playedOnce)) ! 0) \<and>
   onSegmentEnd (player (run (newEngine Running) playedOnce)) = Some 7 \<and>
   invocations (player (run (newEngine Running) playedOnce)) = [] \<and>
   \<not> stopRequested (player (run (newEngine Running) playedOnce))"
    by (simp add: playedOnce_def engine_run demoBuffer_played)
  have ne: "invocations (player (run (newEngine Running) (playedOnce @ [SourceEnded 0]))) \<noteq> []"
    by (simp add: playedOnce_def engine_run demoBuffer_played)
  have att: "playSegmentWithMode demoBuffer (1 / 8192) (3 / 8192)
               (setLoopMode Once (Some 7) (newPlayer Running))
             = Inr (projr (playSegmentWithMode demoBuffer (1 / 8192) (3 / 8192)
                     (setLoopMode Once (Some 7) (newPlayer Running))))"
    by (simp add: demoBuffer_windows(2) [symmetric] demoBuffer_played(2) setLoopMode_def newPlayer_def)
  from C9_completion_callback [of Running "playedOnce @ [SourceEnded 0]" demoBuffer "1 / 8192"
      "3 / 8192" "setLoopMode Once (Some 7) (newPlayer Running)"
      "projr (playSegmentWithMode demoBuffer (1 / 8192) (3 / 8192)
                (setLoopMode Once (Some 7) (newPlayer Running)))"
      0 "player (run (newEngine Running) playedOnce)" 7] pre ne att
  show ?thesis unfolding list_all_iff by simp
qed

section \<open>Superseded requests\<close>












text \<open>
  The checkpoints of a request whose token is no longer the current one: the timer's
  callback drops it, \<^verbatim>\<open>loadSceneAudio\<close> returns at its entry, and after the load nothing
  is done but clearing \<^verbatim>\<open>isAudioLoading\<close>. After \<^verbatim>\<open>playSegment\<close> there is no comparison,
  whether it has resolved or thrown.
\<close>

lemma checkpoints:
  "i < length (pending g) \<Longrightarrow> pending g ! i = AwaitDelay r \<Longrightarrow>
     currentAudioRequestId g \<noteq> Some (requestId r) \<Longrightarrow> gstep g (TimerFires i) = without i g"
  "cancelled r g \<Longrightarrow> loadSceneAudio r g = g"
  "cancelled r g \<Longrightarrow> afterLoad r b g = g\<lparr>isAudioLoading := False\<rparr>"
  "trace (afterPlay r g) =
     trace g @ [Dispatch (requestId r) AUDIO_STARTED, StatusText (requestId r) ''Playing (looped)'']"
  "trace (playFailed r g) =
     trace g @ [StatusText (requestId r) ''Audio error'', Dispatch (requestId r) AUDIO_STOPPED]"
  by (simp_all add: loadSceneAudio_def afterLoad_def afterPlay_def playFailed_def)





end
